theory Spec2Isabelle
  imports Complex_Main
begin

section \<open>The tabular Q-learning agent (\<^verbatim>\<open>HW4/src/q_learning.py\<close>)\<close>

text \<open>
  The agent of \<^verbatim>\<open>q_learning.py\<close> is embedded as pure functions. Floating-point
  numbers are modelled by \<^typ>\<open>real\<close> (no rounding, no overflow, no infinities); the one
  place where the program produces a not-a-number, \<^verbatim>\<open>np.mean\<close> of an empty list, is
  modelled by the constructor \<open>NaN\<close> of the type \<open>npfloat\<close>. Python integers are
  \<^typ>\<open>int\<close>. Every exception the program can raise is a value of the type \<open>error\<close>.
  The one statement whose floating-point evaluation matters, the update of line 135, is
  modelled a second time over the values of IEEE arithmetic, with the rounding as a
  parameter.
\<close>

subsection \<open>Errors, external calls, collaborators\<close>

datatype error = IndexError | ValueError | ZeroDivisionError

text \<open>
  The environment and the random source are external collaborators with side effects. Their
  hidden state is a value of an arbitrary type \<open>'w\<close> that every call takes and returns.
  Every call the agent makes is appended, with its arguments and its result, to a list of
  events, so that the order and the number of the calls can be stated.
\<close>

datatype event =
    CallReset int
  | CallStep int int real bool bool
  | DrawUniform real real real
  | DrawInt int int int

record 'w collaborators =
  action_space_n :: nat
  observation_space_n :: nat
  env_reset :: "'w \<Rightarrow> int \<times> 'w"
  env_step :: "int \<Rightarrow> 'w \<Rightarrow> (int \<times> real \<times> bool \<times> bool) \<times> 'w"
  random_uniform :: "real \<Rightarrow> real \<Rightarrow> 'w \<Rightarrow> real \<times> 'w"
  random_randint :: "int \<Rightarrow> int \<Rightarrow> 'w \<Rightarrow> int \<times> 'w"

type_synonym 'w io = "'w \<times> event list"

text \<open>\<^verbatim>\<open>env.reset()\<close>: the observation (the info dictionary is dropped by the program).\<close>

definition do_reset :: "'w collaborators \<Rightarrow> 'w io \<Rightarrow> int \<times> 'w io" where
  "do_reset ops io =
     (let (s, w') = env_reset ops (fst io) in (s, (w', snd io @ [CallReset s])))"

text \<open>\<^verbatim>\<open>env.step(action)\<close>: observation, reward, terminated, truncated.\<close>

definition do_step ::
  "'w collaborators \<Rightarrow> int \<Rightarrow> 'w io \<Rightarrow> (int \<times> real \<times> bool \<times> bool) \<times> 'w io" where
  "do_step ops a io =
     (let ((s, rew, terminated, truncated), w') = env_step ops a (fst io)
      in ((s, rew, terminated, truncated),
          (w', snd io @ [CallStep a s rew terminated truncated])))"

text \<open>\<^verbatim>\<open>src.random.uniform(lo, hi)\<close> and \<^verbatim>\<open>src.random.randint(lo, hi)\<close>.\<close>

definition do_uniform :: "'w collaborators \<Rightarrow> real \<Rightarrow> real \<Rightarrow> 'w io \<Rightarrow> real \<times> 'w io" where
  "do_uniform ops lo hi io =
     (let (u, w') = random_uniform ops lo hi (fst io)
      in (u, (w', snd io @ [DrawUniform lo hi u])))"

definition do_randint :: "'w collaborators \<Rightarrow> int \<Rightarrow> int \<Rightarrow> 'w io \<Rightarrow> int \<times> 'w io" where
  "do_randint ops lo hi io =
     (let (k, w') = random_randint ops lo hi (fst io)
      in (k, (w', snd io @ [DrawInt lo hi k])))"

subsection \<open>The numpy operations the agent uses\<close>

text \<open>
  Indexing an axis of length \<open>n\<close> with an integer: a negative index counts from the end,
  an index outside \<open>[-n, n)\<close> raises \<^verbatim>\<open>IndexError\<close>.
\<close>

definition np_index :: "nat \<Rightarrow> int \<Rightarrow> error + nat" where
  "np_index n i =
     (if 0 \<le> i \<and> i < int n then Inr (nat i)
      else if - int n \<le> i \<and> i < 0 then Inr (nat (int n + i))
      else Inl IndexError)"

definition np_get :: "'a list \<Rightarrow> int \<Rightarrow> error + 'a" where
  "np_get xs i = (case np_index (length xs) i of Inl e \<Rightarrow> Inl e | Inr j \<Rightarrow> Inr (xs ! j))"

text \<open>\<^verbatim>\<open>np.max\<close> of a one-dimensional array: \<^verbatim>\<open>ValueError\<close> on an empty one.\<close>

fun np_max :: "real list \<Rightarrow> error + real" where
  "np_max [] = Inl ValueError"
| "np_max (x # xs) = Inr (fold max xs x)"

text \<open>\<^verbatim>\<open>np.where(row == v)[0]\<close>: the indices of the entries equal to \<open>v\<close>, ascending.\<close>

definition np_where_eq :: "real list \<Rightarrow> real \<Rightarrow> nat list" where
  "np_where_eq row v = filter (\<lambda>i. row ! i = v) [0..<length row]"

subsection \<open>Tie-break argmax (lines 107-113 of fit, lines 204-212 of predict)\<close>

text \<open>
  The same four statements stand in \<^verbatim>\<open>fit\<close> and in \<^verbatim>\<open>predict\<close>; they are one function
  here. A failure carries the events recorded up to the raise.
\<close>

definition tie_break_argmax ::
  "'w collaborators \<Rightarrow> real list \<Rightarrow> 'w io \<Rightarrow> (error \<times> event list) + (int \<times> 'w io)" where
  "tie_break_argmax ops action_values io =
     (case np_max action_values of
        Inl e \<Rightarrow> Inl (e, snd io)
      | Inr max_value \<Rightarrow>
          (let indices = np_where_eq action_values max_value;
               (rand_num_choice, io') = do_randint ops 0 (int (length indices)) io
           in case np_get indices rand_num_choice of
                Inl e \<Rightarrow> Inl (e, snd io')
              | Inr action \<Rightarrow> Inr (int action, io')))"

subsection \<open>Training: QLearning.fit\<close>

record agent =
  epsilon :: real
  alpha :: real
  gamma :: real

text \<open>
  The variables of the training loop. \<open>transitions\<close> is not a variable of the program: it
  records, for every completed step, the state before the step, the action, the reward, the
  state reported by \<^verbatim>\<open>env.step\<close> and whether the step ended the episode.
\<close>

record 'w fit_state =
  state_action_values :: "real list list"
  current_state :: int
  all_rewards :: "real list"
  transitions :: "(int \<times> int \<times> real \<times> int \<times> bool) list"
  fit_io :: "'w io"

text \<open>Lines 100-113: the epsilon-greedy choice of the action.\<close>

definition choose_action ::
  "agent \<Rightarrow> 'w collaborators \<Rightarrow> real list list \<Rightarrow> int \<Rightarrow> 'w io
     \<Rightarrow> (error \<times> event list) + (int \<times> 'w io)" where
  "choose_action ag ops q s io =
     (let (rand_num_expl, io1) = do_uniform ops 0 1 io
      in if rand_num_expl < epsilon ag
         then Inr (do_randint ops 0 (int (action_space_n ops)) io1)
         else (case np_get q s of
                 Inl e \<Rightarrow> Inl (e, snd io1)
               | Inr action_values \<Rightarrow> tie_break_argmax ops action_values io1))"

text \<open>
  Lines 115-138: one iteration of the loop after the choice of the action. The reset of
  line 127 happens before the update of line 135, its result is stored in
  \<^verbatim>\<open>next_state\<close> and becomes the current state at line 138.
\<close>

definition fit_step ::
  "agent \<Rightarrow> 'w collaborators \<Rightarrow> 'w fit_state \<Rightarrow> (error \<times> event list) + 'w fit_state" where
  "fit_step ag ops st =
     (case choose_action ag ops (state_action_values st) (current_state st) (fit_io st) of
        Inl f \<Rightarrow> Inl f
      | Inr (action, io1) \<Rightarrow>
          (let ((obs, reward, terminated, truncated), io2) = do_step ops action io1;
               last_state = current_state st;
               (next_state, io3) =
                  (if truncated \<or> terminated then do_reset ops io2 else (0, io2));
               q = state_action_values st
           in case np_get q obs of
                Inl e \<Rightarrow> Inl (e, snd io3)
              | Inr next_values \<Rightarrow>
             (case np_max next_values of
                Inl e \<Rightarrow> Inl (e, snd io3)
              | Inr max_next_Q \<Rightarrow>
             (case np_index (length q) last_state of
                Inl e \<Rightarrow> Inl (e, snd io3)
              | Inr i \<Rightarrow>
             (case np_index (length (q ! i)) action of
                Inl e \<Rightarrow> Inl (e, snd io3)
              | Inr j \<Rightarrow>
                  Inr \<lparr> state_action_values =
                          q[i := (q ! i)[j := q ! i ! j
                             + alpha ag * (reward + gamma ag * max_next_Q - q ! i ! j)]],
                        current_state = (if truncated \<or> terminated then next_state else obs),
                        all_rewards = all_rewards st @ [reward],
                        transitions = transitions st
                          @ [(last_state, action, reward, obs, truncated \<or> terminated)],
                        fit_io = io3 \<rparr>)))))"

text \<open>Line 99: \<^verbatim>\<open>for step in range(steps)\<close>; an exception leaves the loop.\<close>

fun fit_loop ::
  "agent \<Rightarrow> 'w collaborators \<Rightarrow> nat \<Rightarrow> 'w fit_state \<Rightarrow> (error \<times> event list) + 'w fit_state" where
  "fit_loop ag ops 0 st = Inr st"
| "fit_loop ag ops (Suc n) st =
     (case fit_step ag ops st of Inl f \<Rightarrow> Inl f | Inr st' \<Rightarrow> fit_loop ag ops n st')"

text \<open>Lines 90-138: the set-up, the first reset and the loop.\<close>

definition np_zeros2 :: "nat \<Rightarrow> nat \<Rightarrow> real list list" where
  "np_zeros2 n_states n_actions = replicate n_states (replicate n_actions 0)"

definition fit_train ::
  "agent \<Rightarrow> 'w collaborators \<Rightarrow> int \<Rightarrow> 'w \<Rightarrow> (error \<times> event list) + 'w fit_state" where
  "fit_train ag ops steps w =
     (let (s0, io0) = do_reset ops (w, [])
      in fit_loop ag ops (nat steps)
           \<lparr> state_action_values = np_zeros2 (observation_space_n ops) (action_space_n ops),
             current_state = s0, all_rewards = [], transitions = [], fit_io = io0 \<rparr>)"

subsection \<open>Reward bins (lines 140-145)\<close>

datatype npfloat = Num real | NaN

text \<open>
  \<^verbatim>\<open>np.mean\<close> of a list: the sum divided by the length; on an empty list numpy divides
  zero by zero, warns, and returns not-a-number.
\<close>

definition np_mean :: "real list \<Rightarrow> npfloat" where
  "np_mean xs = (if xs = [] then NaN else Num (sum_list xs / real (length xs)))"

text \<open>
  A Python slice \<^verbatim>\<open>xs[start:end]\<close>: a negative bound counts from the end, and both
  bounds are clipped to the list.
\<close>

definition py_clip :: "nat \<Rightarrow> int \<Rightarrow> nat" where
  "py_clip n i = (if i < 0 then nat (max 0 (int n + i)) else min n (nat i))"

definition py_slice :: "'a list \<Rightarrow> int \<Rightarrow> int \<Rightarrow> 'a list" where
  "py_slice xs start_ind end_ind =
     (let a = py_clip (length xs) start_ind; b = py_clip (length xs) end_ind
      in take (b - a) (drop a xs))"

definition bin_average :: "real list \<Rightarrow> int \<Rightarrow> int \<Rightarrow> int \<Rightarrow> npfloat" where
  "bin_average rewards num_bins bin_size bin_ind =
     (let start_ind = bin_ind * bin_size;
          end_ind = (if bin_ind < num_bins - 1 then start_ind + bin_size
                     else int (length rewards))
      in if end_ind > start_ind then np_mean (py_slice rewards start_ind end_ind) else Num 0)"

text \<open>
  \<^verbatim>\<open>steps / num_bins\<close> is a division of Python integers with a floating-point result;
  it is modelled by the exact quotient, which the floating-point ceiling agrees with below
  \<open>2^53\<close> steps.
\<close>

definition avg_rewards :: "real list \<Rightarrow> int \<Rightarrow> int \<Rightarrow> npfloat list" where
  "avg_rewards rewards steps num_bins =
     (let bin_size = \<lceil>real_of_int steps / real_of_int num_bins\<rceil>
      in map (\<lambda>bin_ind. bin_average rewards num_bins bin_size (int bin_ind))
           [0..<nat num_bins])"

text \<open>
  \<^verbatim>\<open>fit\<close>: \<^verbatim>\<open>np.zeros([num_bins])\<close> of line 92 raises \<^verbatim>\<open>ValueError\<close> for a negative
  \<^verbatim>\<open>num_bins\<close>, before the first reset; the division of line 141 raises
  \<^verbatim>\<open>ZeroDivisionError\<close> for \<^verbatim>\<open>num_bins = 0\<close>, after the loop. The result is the pair the
  program returns, with the events of the run.
\<close>

definition fit ::
  "agent \<Rightarrow> 'w collaborators \<Rightarrow> int \<Rightarrow> int \<Rightarrow> 'w
     \<Rightarrow> (error \<times> event list) + ((real list list \<times> npfloat list) \<times> event list)" where
  "fit ag ops steps num_bins w =
     (if num_bins < 0 then Inl (ValueError, [])
      else (case fit_train ag ops steps w of
              Inl f \<Rightarrow> Inl f
            | Inr st \<Rightarrow>
                if num_bins = 0 then Inl (ZeroDivisionError, snd (fit_io st))
                else Inr ((state_action_values st,
                           avg_rewards (all_rewards st) steps num_bins),
                          snd (fit_io st))))"

subsection \<open>Evaluation: QLearning.predict\<close>

text \<open>
  The variables of the episode loop; \<open>table\<close> is the array the caller passed, which the
  program reads through a view.
\<close>

record 'w predict_state =
  table :: "real list list"
  p_current_state :: int
  states :: "int list"
  actions :: "int list"
  rewards :: "real list"
  p_io :: "'w io"

text \<open>Lines 204-223: the body of the loop; the flag says whether the episode ended.\<close>

definition predict_step ::
  "'w collaborators \<Rightarrow> 'w predict_state \<Rightarrow> (error \<times> event list) + ('w predict_state \<times> bool)" where
  "predict_step ops st =
     (case np_get (table st) (p_current_state st) of
        Inl e \<Rightarrow> Inl (e, snd (p_io st))
      | Inr action_values \<Rightarrow>
     (case tie_break_argmax ops action_values (p_io st) of
        Inl f \<Rightarrow> Inl f
      | Inr (action, io1) \<Rightarrow>
          (let ((next_state, reward, terminated, truncated), io2) = do_step ops action io1
           in Inr (st \<lparr> p_current_state := next_state,
                        states := states st @ [next_state],
                        actions := actions st @ [action],
                        rewards := rewards st @ [reward],
                        p_io := io2 \<rparr>,
                   terminated \<or> truncated))))"

text \<open>
  Line 202: \<^verbatim>\<open>while not (terminated or truncated)\<close>, entered with both flags false. The
  loop has no bound of its own: the model runs it for at most \<open>fuel\<close> iterations and
  returns \<open>None\<close> when the episode has not ended by then.
\<close>

fun predict_loop ::
  "'w collaborators \<Rightarrow> nat \<Rightarrow> 'w predict_state
     \<Rightarrow> ((error \<times> event list) + 'w predict_state) option" where
  "predict_loop ops 0 st = None"
| "predict_loop ops (Suc fuel) st =
     (case predict_step ops st of
        Inl f \<Rightarrow> Some (Inl f)
      | Inr (st', done) \<Rightarrow> if done then Some (Inr st') else predict_loop ops fuel st')"

definition predict ::
  "'w collaborators \<Rightarrow> real list list \<Rightarrow> 'w \<Rightarrow> nat
     \<Rightarrow> ((error \<times> event list) + 'w predict_state) option" where
  "predict ops q w fuel =
     (let (s0, io0) = do_reset ops (w, [])
      in predict_loop ops fuel
           \<lparr> table = q, p_current_state = s0, states = [], actions = [], rewards = [],
             p_io = io0 \<rparr>)"

subsection \<open>The update of line 135 in floating-point arithmetic\<close>

text \<open>
  The values of binary floating-point arithmetic: the finite numbers, the two infinities and
  not-a-number. The two zeros are not told apart (they compare equal in Python). An
  operation on finite numbers is the exact operation followed by the rounding \<open>rnd\<close>, which
  is a parameter: it maps the exact result to the nearest float, or to an infinity on
  overflow. The operations on infinities and not-a-number are those of IEEE 754.
\<close>

datatype ieee = Finite real | PlusInf | MinusInf | NotANumber

fun fneg :: "ieee \<Rightarrow> ieee" where
  "fneg (Finite x) = Finite (- x)"
| "fneg PlusInf = MinusInf"
| "fneg MinusInf = PlusInf"
| "fneg NotANumber = NotANumber"

fun fadd :: "(real \<Rightarrow> ieee) \<Rightarrow> ieee \<Rightarrow> ieee \<Rightarrow> ieee" where
  "fadd rnd NotANumber y = NotANumber"
| "fadd rnd x NotANumber = NotANumber"
| "fadd rnd (Finite x) (Finite y) = rnd (x + y)"
| "fadd rnd PlusInf MinusInf = NotANumber"
| "fadd rnd MinusInf PlusInf = NotANumber"
| "fadd rnd PlusInf y = PlusInf"
| "fadd rnd MinusInf y = MinusInf"
| "fadd rnd (Finite x) y = y"

definition fsub :: "(real \<Rightarrow> ieee) \<Rightarrow> ieee \<Rightarrow> ieee \<Rightarrow> ieee" where
  "fsub rnd x y = fadd rnd x (fneg y)"

fun fmul :: "(real \<Rightarrow> ieee) \<Rightarrow> ieee \<Rightarrow> ieee \<Rightarrow> ieee" where
  "fmul rnd NotANumber y = NotANumber"
| "fmul rnd x NotANumber = NotANumber"
| "fmul rnd (Finite x) (Finite y) = rnd (x * y)"
| "fmul rnd (Finite x) PlusInf =
     (if x = 0 then NotANumber else if 0 < x then PlusInf else MinusInf)"
| "fmul rnd (Finite x) MinusInf =
     (if x = 0 then NotANumber else if 0 < x then MinusInf else PlusInf)"
| "fmul rnd PlusInf (Finite y) =
     (if y = 0 then NotANumber else if 0 < y then PlusInf else MinusInf)"
| "fmul rnd MinusInf (Finite y) =
     (if y = 0 then NotANumber else if 0 < y then MinusInf else PlusInf)"
| "fmul rnd PlusInf PlusInf = PlusInf"
| "fmul rnd PlusInf MinusInf = MinusInf"
| "fmul rnd MinusInf PlusInf = MinusInf"
| "fmul rnd MinusInf MinusInf = PlusInf"

text \<open>
  Line 135, \<^verbatim>\<open>Q[s][a] += alpha * (reward + gamma * max_next_Q - Q[s][a])\<close>, as Python
  evaluates it: the product with \<open>gamma\<close>, the sum with the reward, the difference with the
  old value, the product with \<open>alpha\<close>, the sum with the old value.
\<close>

definition td_float ::
  "(real \<Rightarrow> ieee) \<Rightarrow> ieee \<Rightarrow> ieee \<Rightarrow> ieee \<Rightarrow> ieee \<Rightarrow> ieee \<Rightarrow> ieee" where
  "td_float rnd alpha_f gamma_f reward max_next_Q old =
     fadd rnd old
       (fmul rnd alpha_f (fsub rnd (fadd rnd reward (fmul rnd gamma_f max_next_Q)) old))"

text \<open>The numbers that the rounding leaves as they are: the floats.\<close>

definition is_float :: "(real \<Rightarrow> ieee) \<Rightarrow> real \<Rightarrow> bool" where
  "is_float rnd x = (rnd x = Finite x)"

text \<open>
  A rounding that loses no precision and overflows where binary64 does at a power of two.
\<close>

definition overflow_rnd :: "real \<Rightarrow> ieee" where
  "overflow_rnd x =
     (if 2 ^ 1024 \<le> x then PlusInf else if x \<le> - (2 ^ 1024) then MinusInf else Finite x)"

subsection \<open>Notions of the specification\<close>

text \<open>The indices of a row whose value is the maximum of the row.\<close>

definition maximal_indices :: "real list \<Rightarrow> nat set" where
  "maximal_indices row = {i. i < length row \<and> row ! i = Max (set row)}"

text \<open>
  The one-step TD(0) control rule on a table: the entry of state \<open>s\<close> and action \<open>a\<close>
  moves by \<open>alpha\<close> times the TD error, whose target bootstraps from the maximum of the
  row of \<open>s_next\<close>.
\<close>

definition td_update ::
  "agent \<Rightarrow> real list list \<Rightarrow> nat \<Rightarrow> nat \<Rightarrow> real \<Rightarrow> nat \<Rightarrow> real list list" where
  "td_update ag q s a reward s_next =
     q[s := (q ! s)[a := q ! s ! a
        + alpha ag * (reward + gamma ag * Max (set (q ! s_next)) - q ! s ! a)]]"

text \<open>A table of \<open>n_states\<close> rows of \<open>n_actions\<close> entries each.\<close>

definition table_shape :: "nat \<Rightarrow> nat \<Rightarrow> real list list \<Rightarrow> bool" where
  "table_shape n_states n_actions q =
     (length q = n_states \<and> list_all (\<lambda>row. length row = n_actions) q)"

text \<open>
  The cells of the table addressed by the state before the step and the chosen action of
  some recorded transition.
\<close>

definition updated_cells ::
  "nat \<Rightarrow> nat \<Rightarrow> (int \<times> int \<times> real \<times> int \<times> bool) list \<Rightarrow> (nat \<times> nat) set" where
  "updated_cells n_states n_actions ts =
     {(i, j). \<exists>t \<in> set ts. np_index n_states (fst t) = Inr i
                          \<and> np_index n_actions (fst (snd t)) = Inr j}"

definition untouched_zero :: "nat \<Rightarrow> nat \<Rightarrow> 'w fit_state \<Rightarrow> bool" where
  "untouched_zero n_states n_actions st =
     (table_shape n_states n_actions (state_action_values st)
      \<and> (\<forall>i < n_states. \<forall>j < n_actions.
            (i, j) \<notin> updated_cells n_states n_actions (transitions st)
            \<longrightarrow> state_action_values st ! i ! j = 0))"

text \<open>The integer draws among the recorded events, in order.\<close>

definition int_draws :: "event list \<Rightarrow> event list" where
  "int_draws lg = filter (\<lambda>e. case e of DrawInt lo hi k \<Rightarrow> True | _ \<Rightarrow> False) lg"

definition draws_are_actions :: "'w collaborators \<Rightarrow> 'w fit_state \<Rightarrow> bool" where
  "draws_are_actions ops st =
     (int_draws (snd (fit_io st)) =
        map (\<lambda>t. DrawInt 0 (int (action_space_n ops)) (fst (snd t))) (transitions st))"

text \<open>
  The calls of \<^verbatim>\<open>env.step\<close> among the recorded events, in order: the action, the state and
  the reward returned, and whether the step ended the episode.
\<close>

fun env_steps :: "event list \<Rightarrow> (int \<times> int \<times> real \<times> bool) list" where
  "env_steps [] = []"
| "env_steps (CallStep a s r terminated truncated # es) =
     (a, s, r, terminated \<or> truncated) # env_steps es"
| "env_steps (e # es) = env_steps es"

text \<open>The three lists of \<^verbatim>\<open>predict\<close> hold one entry per call of \<^verbatim>\<open>env.step\<close> so far.\<close>

definition episode_so_far :: "'w predict_state \<Rightarrow> bool" where
  "episode_so_far st =
     (states st = map (\<lambda>(a, s, r, d). s) (env_steps (snd (p_io st)))
      \<and> actions st = map (\<lambda>(a, s, r, d). a) (env_steps (snd (p_io st)))
      \<and> rewards st = map (\<lambda>(a, s, r, d). r) (env_steps (snd (p_io st))))"

definition none_ended :: "event list \<Rightarrow> bool" where
  "none_ended lg = list_all (\<lambda>(a, s, r, d). \<not> d) (env_steps lg)"

text \<open>
  The contracts of the collaborators: the environment reports states in \<open>[0, S)\<close> (for
  actions in \<open>[0, A)\<close>), and an integer draw from a non-empty range lies in the range.
\<close>

definition env_contract :: "'w collaborators \<Rightarrow> bool" where
  "env_contract ops =
     ((\<forall>w. 0 \<le> fst (env_reset ops w) \<and> fst (env_reset ops w) < int (observation_space_n ops))
      \<and> (\<forall>a w. 0 \<le> a \<and> a < int (action_space_n ops) \<longrightarrow>
             0 \<le> fst (fst (env_step ops a w))
           \<and> fst (fst (env_step ops a w)) < int (observation_space_n ops)))"

definition randint_contract :: "'w collaborators \<Rightarrow> bool" where
  "randint_contract ops =
     (\<forall>lo hi w. lo < hi \<longrightarrow>
        lo \<le> fst (random_randint ops lo hi w) \<and> fst (random_randint ops lo hi w) < hi)"

text \<open>
  Episodes end: some measure of the hidden state decreases with every step that does not end
  the episode, and no integer draw increases it.
\<close>

definition step_ends :: "'w collaborators \<Rightarrow> int \<Rightarrow> 'w \<Rightarrow> bool" where
  "step_ends ops a w = (case fst (env_step ops a w) of (s, r, terminated, truncated) \<Rightarrow>
      terminated \<or> truncated)"

definition episodes_end :: "'w collaborators \<Rightarrow> ('w \<Rightarrow> nat) \<Rightarrow> bool" where
  "episodes_end ops m =
     ((\<forall>a w. \<not> step_ends ops a w \<longrightarrow> m (snd (env_step ops a w)) < m w)
      \<and> (\<forall>lo hi w. m (snd (random_randint ops lo hi w)) \<le> m w))"

text \<open>The table has the shape of the environment and the current state is one of its states.\<close>

definition predict_ready :: "'w collaborators \<Rightarrow> 'w predict_state \<Rightarrow> bool" where
  "predict_ready ops st =
     (table_shape (observation_space_n ops) (action_space_n ops) (table st)
      \<and> 0 \<le> p_current_state st \<and> p_current_state st < int (observation_space_n ops))"

text \<open>
  The entries of the raw reward trace that bin \<open>i\<close> covers: those with index in
  \<open>[i * bin_size, (i + 1) * bin_size)\<close>, and for the final bin those from
  \<open>(num_bins - 1) * bin_size\<close> to the end of the trace, with
  \<open>bin_size = ceil (steps / num_bins)\<close>.
\<close>

definition bin_entries :: "real list \<Rightarrow> int \<Rightarrow> int \<Rightarrow> nat \<Rightarrow> real list" where
  "bin_entries trace steps num_bins i =
     (let bin_size = nat \<lceil>real_of_int steps / real_of_int num_bins\<rceil>
      in if i = nat num_bins - 1 then drop (i * bin_size) trace
         else take bin_size (drop (i * bin_size) trace))"

text \<open>The reward trace holds the rewards returned by \<^verbatim>\<open>env.step\<close>, in order.\<close>

definition rewards_logged :: "'w fit_state \<Rightarrow> bool" where
  "rewards_logged st =
     (all_rewards st = map (\<lambda>(a, s, r, d). r) (env_steps (snd (fit_io st))))"

text \<open>The table has the shape of the environment and the current state is one of its states.\<close>

definition fit_ready :: "'w collaborators \<Rightarrow> 'w fit_state \<Rightarrow> bool" where
  "fit_ready ops st =
     (table_shape (observation_space_n ops) (action_space_n ops) (state_action_values st)
      \<and> 0 \<le> current_state st \<and> current_state st < int (observation_space_n ops))"

text \<open>The events recorded by a run of the loop, whether it raised or not.\<close>

definition log_of :: "(error \<times> event list) + 'w fit_state \<Rightarrow> event list" where
  "log_of r = (case r of Inl (e, lg) \<Rightarrow> lg | Inr st \<Rightarrow> snd (fit_io st))"

subsection \<open>A concrete environment and random source\<close>

text \<open>
  A chain of three states: every step moves one state to the right and the episode ends in
  state 2; action 0 pays 1, the other action pays one half. The random source is driven by
  a counter. The hidden state is the pair of the position and the counter.
\<close>

definition chain_ops :: "(nat \<times> nat) collaborators" where
  "chain_ops =
     \<lparr> action_space_n = 2, observation_space_n = 3,
       env_reset = (\<lambda>(pos, c). (0, (0, c))),
       env_step = (\<lambda>a (pos, c).
          (let pos' = (if pos < 2 then pos + 1 else 2)
           in ((int pos', (if a = 0 then 1 else 1 / 2), 2 \<le> pos', False), (pos', c)))),
       random_uniform =
         (\<lambda>lo hi (pos, c). (lo + (hi - lo) * real (c mod 4) / 4, (pos, c + 1))),
       random_randint =
         (\<lambda>lo hi (pos, c). (lo + int (c div 2) mod (hi - lo), (pos, c + 1))) \<rparr>"

definition half_agent :: agent where
  "half_agent = \<lparr> epsilon = 1 / 2, alpha = 1 / 2, gamma = 1 / 2 \<rparr>"

definition explorer :: agent where
  "explorer = \<lparr> epsilon = 1, alpha = 1 / 2, gamma = 1 / 2 \<rparr>"

text \<open>A state of the training loop in the middle of an episode, one step before its end.\<close>

definition chain_state :: "(nat \<times> nat) fit_state" where
  "chain_state = \<lparr> state_action_values = [[7, 0], [2, 4], [3, 1]], current_state = 1,
      all_rewards = [], transitions = [], fit_io = ((1, 0), []) \<rparr>"

text \<open>A table for the chain, and the episode that \<^verbatim>\<open>predict\<close> runs with it.\<close>

definition chain_table :: "real list list" where
  "chain_table = [[0, 1], [1, 1], [0, 0]]"

definition chain_episode :: "(nat \<times> nat) predict_state" where
  "chain_episode = \<lparr> table = chain_table, p_current_state = 2,
      states = [1, 2], actions = [1, 0], rewards = [1 / 2, 1],
      p_io = ((2, 2), [CallReset 0, DrawInt 0 1 0, CallStep 1 1 (1 / 2) False False,
                       DrawInt 0 2 0, CallStep 0 2 1 True False]) \<rparr>"

section \<open>Properties\<close>

subsection \<open>numpy operations\<close>

lemma np_max_eq_Max:
  assumes "row \<noteq> []"
  shows "np_max row = Inr (Max (set row))"
proof (cases row)
  case Nil
  with assms show ?thesis by simp
next
  case (Cons x xs)
  then show ?thesis using Max.set_eq_fold [of x xs] by simp
qed

lemma np_where_eq_sorted_list:
  "np_where_eq row v = sorted_list_of_set {i. i < length row \<and> row ! i = v}"
proof -
  have "sorted (np_where_eq row v)" "distinct (np_where_eq row v)"
    by (simp_all add: np_where_eq_def sorted_wrt_filter)
  moreover have "set (np_where_eq row v) = {i. i < length row \<and> row ! i = v}"
    by (auto simp: np_where_eq_def)
  ultimately show ?thesis
    by (metis sorted_list_of_set.idem_if_sorted_distinct)
qed

lemma maximal_indices_finite: "finite (maximal_indices row)"
  by (simp add: maximal_indices_def)

lemma np_where_eq_maximal:
  "np_where_eq row (Max (set row)) = sorted_list_of_set (maximal_indices row)"
  by (simp add: np_where_eq_sorted_list maximal_indices_def)

lemma np_index_in_range: "0 \<le> i \<Longrightarrow> i < int n \<Longrightarrow> np_index n i = Inr (nat i)"
  by (simp add: np_index_def)

lemma np_get_in_range:
  "0 \<le> i \<Longrightarrow> i < int (length xs) \<Longrightarrow> np_get xs i = Inr (xs ! nat i)"
  by (simp add: np_get_def np_index_in_range)

lemma sorted_list_nth_Min:
  assumes "finite M" "k < card M"
  shows "(sorted_list_of_set M ! k = Min M) = (k = 0)"
proof -
  let ?xs = "sorted_list_of_set M"
  have len: "length ?xs = card M" by simp
  have d: "distinct ?xs" by simp
  have ne: "?xs \<noteq> []" using len assms by auto
  have "Min M = ?xs ! 0"
  proof (rule Min_eqI)
    show "finite M" by (rule assms(1))
    show "?xs ! 0 \<in> M"
      using ne assms(1) by (metis length_greater_0_conv nth_mem set_sorted_list_of_set)
    fix y assume "y \<in> M"
    then have "y \<in> set ?xs" using assms(1) by simp
    then obtain j where "j < length ?xs" "?xs ! j = y" by (auto simp: in_set_conv_nth)
    then show "?xs ! 0 \<le> y"
      using sorted_nth_mono [of ?xs 0 j] by simp
  qed
  then show ?thesis
    using d assms len by (metis gr_zeroI nth_eq_iff_index_eq not_less_zero neq0_conv)
qed

subsection \<open>Tie-break argmax\<close>

text \<open>
  Claim C2. For a non-empty row, when the random source answers the one integer draw with a
  number \<open>k\<close> in its range, the tie-break argmax returns the \<open>k\<close>-th maximal index in
  ascending order: an index of the row whose value is the row maximum. It makes exactly one
  draw, over the number of maximal indices, and no other call. The draws \<open>0, 1, ...\<close>
  correspond one to one to the maximal indices, so a uniform draw gives a uniform choice
  among the ties, and the lowest tied index is returned for the draw 0 only.
\<close>

theorem tie_break_argmax_selects:
  assumes "row \<noteq> []"
    and "random_randint ops 0 (int (card (maximal_indices row))) w = (k, w')"
    and "0 \<le> k" and "k < int (card (maximal_indices row))"
  shows "tie_break_argmax ops row (w, lg) =
           Inr (int (sorted_list_of_set (maximal_indices row) ! nat k),
                (w', lg @ [DrawInt 0 (int (card (maximal_indices row))) k]))
         \<and> sorted_list_of_set (maximal_indices row) ! nat k < length row
         \<and> row ! (sorted_list_of_set (maximal_indices row) ! nat k) = Max (set row)
         \<and> (sorted_list_of_set (maximal_indices row) ! nat k = Min (maximal_indices row))
             = (k = 0)
         \<and> bij_betw (\<lambda>j. sorted_list_of_set (maximal_indices row) ! j)
               {..<card (maximal_indices row)} (maximal_indices row)"
proof -
  let ?M = "maximal_indices row"
  let ?xs = "sorted_list_of_set ?M"
  have fin: "finite ?M" by (rule maximal_indices_finite)
  have len: "length ?xs = card ?M" by simp
  have k: "nat k < card ?M" using assms(3,4) by linarith
  have mem: "?xs ! nat k \<in> ?M"
    using k len fin by (metis nth_mem set_sorted_list_of_set)
  have get: "np_get ?xs k = Inr (?xs ! nat k)"
    using assms(3,4) len by (simp add: np_get_in_range)
  have run: "tie_break_argmax ops row (w, lg) =
           Inr (int (?xs ! nat k), (w', lg @ [DrawInt 0 (int (card ?M)) k]))"
    using assms(1,2) get
    by (simp add: tie_break_argmax_def np_max_eq_Max np_where_eq_maximal do_randint_def)
  have bij: "bij_betw (\<lambda>j. ?xs ! j) {..<card ?M} ?M"
    using bij_betw_nth [of ?xs "{..<card ?M}" ?M] fin by simp
  have low: "(?xs ! nat k = Min ?M) = (k = 0)"
    using sorted_list_nth_Min [OF fin k] assms(3) by simp
  show ?thesis
    using run mem bij low by (simp add: maximal_indices_def)
qed

theorem tie_break_argmax_selects_witness:
  "tie_break_argmax chain_ops [1, 3, 3] ((0, 3), []) = Inr (2, ((0, 4), [DrawInt 0 2 1]))"
proof -
  have M: "maximal_indices [1, 3, 3] = {1, 2}"
    by (auto simp: maximal_indices_def nth_Cons' less_Suc_eq)
  have s: "sorted_list_of_set {1, 2 :: nat} = [1, 2]" by code_simp
  show ?thesis
    using tie_break_argmax_selects [of "[1, 3, 3]" chain_ops "(0, 3)" 1 "(0, 4)" "[]"]
    by (simp add: M s chain_ops_def)
qed

lemma np_index_less: "np_index n i = Inr k \<Longrightarrow> k < n"
  by (auto simp: np_index_def split: if_splits)

lemma np_get_Inr: "np_get xs i = Inr x \<Longrightarrow> \<exists>k. np_index (length xs) i = Inr k \<and> x = xs ! k"
  by (auto simp: np_get_def split: sum.splits)

lemma np_max_Inr: "np_max row = Inr m \<Longrightarrow> row \<noteq> [] \<and> m = Max (set row)"
  using np_max_eq_Max [of row] by (cases row) auto

lemma nth_update2:
  "i < length q \<Longrightarrow>
     q[i := (q ! i)[j := v]] ! i' ! j' =
       (if i' = i \<and> j' = j \<and> j < length (q ! i) then v else q ! i' ! j')"
  by (cases "j < length (q ! i)") (auto simp: nth_list_update list_update_beyond not_less)

lemma length_update2:
  "length (q[i := (q ! i)[j := v]] ! i') = length (q ! i')"
  by (cases "i < length q") (auto simp: nth_list_update list_update_beyond not_less)

subsection \<open>One step of the training loop\<close>

text \<open>What a step that raises nothing has done.\<close>

lemma fit_step_cases:
  assumes "fit_step ag ops st = Inr st'"
  obtains a io1 obs reward terminated truncated io2 next_values max_next_Q i j
  where "choose_action ag ops (state_action_values st) (current_state st) (fit_io st)
           = Inr (a, io1)"
    and "do_step ops a io1 = ((obs, reward, terminated, truncated), io2)"
    and "np_get (state_action_values st) obs = Inr next_values"
    and "np_max next_values = Inr max_next_Q"
    and "np_index (length (state_action_values st)) (current_state st) = Inr i"
    and "np_index (length (state_action_values st ! i)) a = Inr j"
    and "st' = \<lparr> state_action_values =
                  (state_action_values st)[i := (state_action_values st ! i)[j :=
                     state_action_values st ! i ! j
                     + alpha ag * (reward + gamma ag * max_next_Q
                                   - state_action_values st ! i ! j)]],
                current_state =
                  (if truncated \<or> terminated then fst (do_reset ops io2) else obs),
                all_rewards = all_rewards st @ [reward],
                transitions = transitions st
                  @ [(current_state st, a, reward, obs, truncated \<or> terminated)],
                fit_io = (if truncated \<or> terminated then snd (do_reset ops io2) else io2) \<rparr>"
  using assms
  by (fastforce simp: fit_step_def Let_def split: sum.splits prod.splits if_splits)

lemma fit_loop_invariant:
  assumes step: "\<And>s s'. P s \<Longrightarrow> fit_step ag ops s = Inr s' \<Longrightarrow> P s'"
    and "P st" and "fit_loop ag ops n st = Inr st'"
  shows "P st'"
  using assms(2,3)
proof (induction n arbitrary: st)
  case 0
  then show ?case by simp
next
  case (Suc n)
  then show ?case by (auto split: sum.splits dest: step)
qed

lemma fit_loop_length:
  "fit_loop ag ops n st = Inr st' \<Longrightarrow>
     length (transitions st') = length (transitions st) + n
     \<and> length (all_rewards st') = length (all_rewards st) + n"
proof (induction n arbitrary: st)
  case 0
  then show ?case by simp
next
  case (Suc n)
  from Suc.prems obtain s1 where s1: "fit_step ag ops st = Inr s1"
    and l: "fit_loop ag ops n s1 = Inr st'" by (auto split: sum.splits)
  from s1 have "length (transitions s1) = Suc (length (transitions st))
      \<and> length (all_rewards s1) = Suc (length (all_rewards st))"
    by (cases rule: fit_step_cases) simp
  with Suc.IH [OF l] show ?case by simp
qed

text \<open>
  Claim C1. Every step of the training loop that completes updates the table by the
  one-step TD(0) rule: with \<open>s\<close> the state before the step, \<open>a\<close> the chosen action and
  \<open>s_next\<close>, \<open>reward\<close> the answer of \<^verbatim>\<open>env.step\<close>, the new table is the old one with the
  entry of \<open>(s, a)\<close> moved by \<open>alpha * (reward + gamma * max Q[s_next] - Q[s, a])\<close>. The
  maximum is taken over the row of the reported \<open>s_next\<close> of the old table also when the
  step ended the episode, and the state returned by the reset is the current state only in
  the state after the update.
\<close>

theorem fit_step_td_update:
  assumes "fit_step ag ops st = Inr st'"
    and "choose_action ag ops (state_action_values st) (current_state st) (fit_io st)
           = Inr (a, io1)"
    and "do_step ops a io1 = ((s_next, reward, terminated, truncated), io2)"
  shows "\<exists>i j k.
           np_index (length (state_action_values st)) (current_state st) = Inr i
         \<and> np_index (length (state_action_values st ! i)) a = Inr j
         \<and> np_index (length (state_action_values st)) s_next = Inr k
         \<and> state_action_values st' = td_update ag (state_action_values st) i j reward k
         \<and> current_state st' =
              (if terminated \<or> truncated then fst (do_reset ops io2) else s_next)"
  using assms(1)
proof (cases rule: fit_step_cases)
  case (1 a' io1' obs reward' terminated' truncated' io2' next_values max_next_Q i j)
  from 1(1) assms(2) have eq1: "a' = a" "io1' = io1" by simp_all
  with 1(2) assms(3) have eq2: "obs = s_next" "reward' = reward" "terminated' = terminated"
    "truncated' = truncated" "io2' = io2" by simp_all
  from np_get_Inr [OF 1(3)] obtain k where
    k: "np_index (length (state_action_values st)) obs = Inr k"
    and nv: "next_values = state_action_values st ! k" by blast
  from np_max_Inr [OF 1(4)] nv have mx: "max_next_Q = Max (set (state_action_values st ! k))"
    by simp
  show ?thesis
    using 1(5,6,7) k mx eq1 eq2 by (auto simp: td_update_def)
qed

lemmas step_defs = fit_step_def choose_action_def tie_break_argmax_def do_reset_def
  do_step_def do_uniform_def do_randint_def np_get_def np_index_def np_where_eq_def

theorem fit_step_td_update_witness:
  "\<exists>st'. fit_step half_agent chain_ops chain_state = Inr st'
     \<and> state_action_values st' = td_update half_agent [[7, 0], [2, 4], [3, 1]] 1 0 1 2
     \<and> state_action_values st' = [[7, 0], [9 / 4, 4], [3, 1]]
     \<and> current_state st' = 0"
proof -
  let ?st' = "\<lparr> state_action_values = [[7, 0], [9 / 4, 4], [3, 1]], current_state = 0,
           all_rewards = [1], transitions = [(1, 0, 1, 2, True)],
           fit_io = ((0, 2 :: nat), [DrawUniform 0 1 0, DrawInt 0 2 0,
                              CallStep 0 2 1 True False, CallReset 0]) \<rparr>"
  have run: "fit_step half_agent chain_ops chain_state = Inr ?st'"
    by (simp add: step_defs half_agent_def chain_ops_def chain_state_def)
  have choice: "choose_action half_agent chain_ops (state_action_values chain_state)
      (current_state chain_state) (fit_io chain_state)
      = Inr (0, ((1, 2), [DrawUniform 0 1 0, DrawInt 0 2 0]))"
    by (simp add: step_defs half_agent_def chain_ops_def chain_state_def)
  have step: "do_step chain_ops 0 ((1, 2), [DrawUniform 0 1 0, DrawInt 0 2 0])
      = ((2, 1, True, False),
         ((2, 2), [DrawUniform 0 1 0, DrawInt 0 2 0, CallStep 0 2 1 True False]))"
    by (simp add: step_defs chain_ops_def)
  from fit_step_td_update [OF run choice step]
  have "state_action_values ?st' = td_update half_agent [[7, 0], [2, 4], [3, 1]] 1 0 1 2"
    by (auto simp: np_index_def chain_state_def)
  with run show ?thesis by simp
qed

subsection \<open>The frame of a step\<close>

lemma fit_step_frame:
  assumes "fit_step ag ops st = Inr st'"
  shows "\<exists>i j a io1 r s' d.
           choose_action ag ops (state_action_values st) (current_state st) (fit_io st)
             = Inr (a, io1)
         \<and> transitions st' = transitions st @ [(current_state st, a, r, s', d)]
         \<and> np_index (length (state_action_values st)) (current_state st) = Inr i
         \<and> np_index (length (state_action_values st ! i)) a = Inr j
         \<and> length (state_action_values st') = length (state_action_values st)
         \<and> (\<forall>i'. length (state_action_values st' ! i') = length (state_action_values st ! i'))
         \<and> (\<forall>i' j'. (i', j') \<noteq> (i, j) \<longrightarrow>
               state_action_values st' ! i' ! j' = state_action_values st ! i' ! j')"
  using assms
proof (cases rule: fit_step_cases)
  case (1 a io1 obs reward terminated truncated io2 next_values max_next_Q i j)
  have il: "i < length (state_action_values st)" using np_index_less [OF 1(5)] .
  have "\<forall>i' j'. (i', j') \<noteq> (i, j) \<longrightarrow>
               state_action_values st' ! i' ! j' = state_action_values st ! i' ! j'"
    using 1(7) il by (auto simp: nth_update2)
  moreover have "\<forall>i'. length (state_action_values st' ! i')
      = length (state_action_values st ! i')"
    using 1(7) by (simp add: length_update2)
  ultimately show ?thesis using 1 by auto
qed

lemma table_shape_zeros: "table_shape S A (np_zeros2 S A)"
  by (simp add: table_shape_def np_zeros2_def list_all_length)

lemma table_shape_row: "table_shape S A q \<Longrightarrow> i < S \<Longrightarrow> length (q ! i) = A"
  by (simp add: table_shape_def list_all_length)

lemma fit_step_untouched_zero:
  assumes "untouched_zero S A st" and "fit_step ag ops st = Inr st'"
  shows "untouched_zero S A st'"
proof -
  from fit_step_frame [OF assms(2)] obtain i j a r s' d where
    t: "transitions st' = transitions st @ [(current_state st, a, r, s', d)]"
    and i: "np_index (length (state_action_values st)) (current_state st) = Inr i"
    and j: "np_index (length (state_action_values st ! i)) a = Inr j"
    and len: "length (state_action_values st') = length (state_action_values st)"
    and rows: "\<forall>i'. length (state_action_values st' ! i') = length (state_action_values st ! i')"
    and frame: "\<forall>i' j'. (i', j') \<noteq> (i, j) \<longrightarrow>
               state_action_values st' ! i' ! j' = state_action_values st ! i' ! j'"
    by blast
  from assms(1) have sh: "table_shape S A (state_action_values st)"
    by (simp add: untouched_zero_def)
  then have S: "length (state_action_values st) = S" by (simp add: table_shape_def)
  have iS: "i < S" using np_index_less [OF i] S by simp
  have A: "length (state_action_values st ! i) = A" using table_shape_row [OF sh iS] .
  have sh': "table_shape S A (state_action_values st')"
    using sh len rows by (simp add: table_shape_def list_all_length)
  have cell: "(i, j) \<in> updated_cells S A (transitions st')"
    using i j S A t by (auto simp: updated_cells_def)
  have sub: "updated_cells S A (transitions st) \<subseteq> updated_cells S A (transitions st')"
    using t by (auto simp: updated_cells_def)
  show ?thesis
    unfolding untouched_zero_def
  proof (intro conjI allI impI)
    show "table_shape S A (state_action_values st')" by (rule sh')
    fix i' j' assume b: "i' < S" "j' < A"
      and n: "(i', j') \<notin> updated_cells S A (transitions st')"
    then have "(i', j') \<noteq> (i, j)" using cell by auto
    then have "state_action_values st' ! i' ! j' = state_action_values st ! i' ! j'"
      using frame by blast
    moreover have "(i', j') \<notin> updated_cells S A (transitions st)" using n sub by blast
    ultimately show "state_action_values st' ! i' ! j' = 0"
      using assms(1) b by (simp add: untouched_zero_def)
  qed
qed

text \<open>The set-up of \<^verbatim>\<open>fit\<close> followed by the loop, with the first state named.\<close>

lemma fit_train_loop:
  assumes "fit_train ag ops steps w = Inr fin"
  obtains s0 io0 where "do_reset ops (w, []) = (s0, io0)"
    and "fit_loop ag ops (nat steps)
           \<lparr> state_action_values = np_zeros2 (observation_space_n ops) (action_space_n ops),
             current_state = s0, all_rewards = [], transitions = [], fit_io = io0 \<rparr>
         = Inr fin"
  using assms by (cases "do_reset ops (w, [])") (simp add: fit_train_def)

lemma fit_train_untouched_zero:
  assumes "fit_train ag ops steps w = Inr fin"
  shows "untouched_zero (observation_space_n ops) (action_space_n ops) fin"
  using assms
proof (cases rule: fit_train_loop)
  case (1 s0 io0)
  let ?S = "observation_space_n ops" and ?A = "action_space_n ops"
  let ?st0 = "\<lparr> state_action_values = np_zeros2 ?S ?A,
             current_state = s0, all_rewards = [], transitions = [], fit_io = io0 \<rparr>"
  have init: "untouched_zero ?S ?A ?st0"
    by (simp add: untouched_zero_def table_shape_zeros) (simp add: np_zeros2_def)
  show ?thesis
    by (rule fit_loop_invariant [where P = "untouched_zero ?S ?A", OF _ init 1(2)])
       (rule fit_step_untouched_zero)
qed

lemma fit_Inr:
  assumes "fit ag ops steps num_bins w = Inr ((q, avg), lg)"
  obtains fin where "fit_train ag ops steps w = Inr fin" and "q = state_action_values fin"
    and "avg = avg_rewards (all_rewards fin) steps num_bins" and "lg = snd (fit_io fin)"
    and "0 < num_bins"
  using assms by (auto simp: fit_def split: if_splits sum.splits)

text \<open>
  Claim C10. A step that completes changes no entry of the table but the one addressed by
  the state before the step and the chosen action, which it records as a transition.
  Consequently, in the table that \<^verbatim>\<open>fit\<close> returns, every entry that no transition of
  the run addresses is 0, the value it was initialised with.
\<close>

theorem fit_frame:
  "(fit_step ag ops st = Inr st' \<longrightarrow>
      (\<exists>i j a io1 r s' d.
           choose_action ag ops (state_action_values st) (current_state st) (fit_io st)
             = Inr (a, io1)
         \<and> transitions st' = transitions st @ [(current_state st, a, r, s', d)]
         \<and> np_index (length (state_action_values st)) (current_state st) = Inr i
         \<and> np_index (length (state_action_values st ! i)) a = Inr j
         \<and> (\<forall>i' j'. (i', j') \<noteq> (i, j) \<longrightarrow>
               state_action_values st' ! i' ! j' = state_action_values st ! i' ! j')))
   \<and> (fit ag ops steps num_bins w = Inr ((q, avg), lg) \<longrightarrow>
      (\<exists>fin. fit_train ag ops steps w = Inr fin
         \<and> q = state_action_values fin
         \<and> length (transitions fin) = nat steps
         \<and> table_shape (observation_space_n ops) (action_space_n ops) q
         \<and> (\<forall>i < observation_space_n ops. \<forall>j < action_space_n ops.
               (i, j) \<notin> updated_cells (observation_space_n ops) (action_space_n ops)
                          (transitions fin)
               \<longrightarrow> q ! i ! j = 0)))"
proof (intro conjI impI)
  assume "fit_step ag ops st = Inr st'"
  from fit_step_frame [OF this]
  show "\<exists>i j a io1 r s' d.
           choose_action ag ops (state_action_values st) (current_state st) (fit_io st)
             = Inr (a, io1)
         \<and> transitions st' = transitions st @ [(current_state st, a, r, s', d)]
         \<and> np_index (length (state_action_values st)) (current_state st) = Inr i
         \<and> np_index (length (state_action_values st ! i)) a = Inr j
         \<and> (\<forall>i' j'. (i', j') \<noteq> (i, j) \<longrightarrow>
               state_action_values st' ! i' ! j' = state_action_values st ! i' ! j')"
    by blast
next
  assume "fit ag ops steps num_bins w = Inr ((q, avg), lg)"
  then obtain fin where fin: "fit_train ag ops steps w = Inr fin"
    and q: "q = state_action_values fin" by (rule fit_Inr)
  have len: "length (transitions fin) = nat steps"
    using fin by (cases rule: fit_train_loop) (auto dest: fit_loop_length)
  from fit_train_untouched_zero [OF fin] q len fin
  show "\<exists>fin. fit_train ag ops steps w = Inr fin
         \<and> q = state_action_values fin
         \<and> length (transitions fin) = nat steps
         \<and> table_shape (observation_space_n ops) (action_space_n ops) q
         \<and> (\<forall>i < observation_space_n ops. \<forall>j < action_space_n ops.
               (i, j) \<notin> updated_cells (observation_space_n ops) (action_space_n ops)
                          (transitions fin)
               \<longrightarrow> q ! i ! j = 0)"
    by (auto simp: untouched_zero_def)
qed

lemmas fit_defs = fit_def fit_train_def np_zeros2_def avg_rewards_def bin_average_def
  np_mean_def py_slice_def py_clip_def

theorem fit_frame_witness:
  "fit_step half_agent chain_ops chain_state =
     Inr \<lparr> state_action_values = [[7, 0], [9 / 4, 4], [3, 1]], current_state = 0,
           all_rewards = [1], transitions = [(1, 0, 1, 2, True)],
           fit_io = ((0, 2), [DrawUniform 0 1 0, DrawInt 0 2 0,
                              CallStep 0 2 1 True False, CallReset 0]) \<rparr>
   \<and> fit half_agent chain_ops 2 1 (0, 0) =
     Inr (([[1 / 2, 0], [0, 1 / 4], [0, 0]], [Num (3 / 4)]),
          [CallReset 0, DrawUniform 0 1 0, DrawInt 0 2 0, CallStep 0 1 1 False False,
           DrawUniform 0 1 (1 / 2), DrawInt 0 2 1, CallStep 1 2 (1 / 2) True False,
           CallReset 0])
   \<and> updated_cells 3 2 [(0, 0, 1, 1, False), (1, 1, 1 / 2, 2, True)] = {(0, 0), (1, 1)}
   \<and> (\<exists>fin. fit_train half_agent chain_ops 2 (0, 0) = Inr fin
         \<and> transitions fin = [(0, 0, 1, 1, False), (1, 1, 1 / 2, 2, True)]
         \<and> state_action_values fin ! 2 ! 0 = 0)"
proof -
  let ?st' = "\<lparr> state_action_values = [[7, 0], [9 / 4, 4], [3, 1]], current_state = 0,
           all_rewards = [1], transitions = [(1, 0, 1, 2, True)],
           fit_io = ((0, 2 :: nat), [DrawUniform 0 1 0, DrawInt 0 2 0,
                              CallStep 0 2 1 True False, CallReset 0]) \<rparr>"
  let ?lg = "[CallReset 0, DrawUniform 0 1 0, DrawInt 0 2 0, CallStep 0 1 1 False False,
           DrawUniform 0 1 (1 / 2), DrawInt 0 2 1, CallStep 1 2 (1 / 2) True False,
           CallReset 0]"
  let ?q = "[[1 / 2, 0], [0, 1 / 4], [0, 0 :: real]]"
  let ?fin = "\<lparr> state_action_values = ?q, current_state = 0, all_rewards = [1, 1 / 2],
        transitions = [(0, 0, 1, 1, False), (1, 1, 1 / 2, 2, True)],
        fit_io = ((0, 4 :: nat), ?lg) \<rparr>"
  have step: "fit_step half_agent chain_ops chain_state = Inr ?st'"
    by (simp add: step_defs half_agent_def chain_ops_def chain_state_def)
  have train: "fit_train half_agent chain_ops 2 (0, 0) = Inr ?fin"
    by code_simp
  have run: "fit half_agent chain_ops 2 1 (0, 0) = Inr ((?q, [Num (3 / 4)]), ?lg)"
    by (simp add: fit_def train) (simp add: fit_defs)
  have cells: "updated_cells 3 2 [(0, 0, 1, 1, False), (1, 1, 1 / 2, 2, True)]
      = {(0, 0), (1, 1)}"
    by (auto simp: updated_cells_def np_index_def)
  have S: "observation_space_n chain_ops = 3" "action_space_n chain_ops = 2"
    by (simp_all add: chain_ops_def)
  from fit_frame [of half_agent chain_ops chain_state ?st' 2 1 "(0, 0)" ?q "[Num (3 / 4)]" ?lg]
    step run train
  have "\<forall>i < 3. \<forall>j < 2.
      (i, j) \<notin> updated_cells 3 2 [(0, 0, 1, 1, False), (1, 1, 1 / 2, 2, True)]
      \<longrightarrow> ?q ! i ! j = 0"
    by (simp add: S)
  then have "?q ! 2 ! 0 = 0" using cells by simp
  with step run cells train show ?thesis by simp
qed

subsection \<open>Exploration with probability one\<close>

lemma choose_action_explore:
  assumes "epsilon ag = 1" and "fst (random_uniform ops 0 1 w) < 1"
  shows "choose_action ag ops q s (w, lg) =
           (let (u, w1) = random_uniform ops 0 1 w;
                (a, w2) = random_randint ops 0 (int (action_space_n ops)) w1
            in Inr (a, (w2, lg @ [DrawUniform 0 1 u,
                                  DrawInt 0 (int (action_space_n ops)) a])))"
  using assms
  by (auto simp: choose_action_def do_uniform_def do_randint_def split: prod.splits)

lemma fit_step_draws_are_actions:
  assumes "epsilon ag = 1" and "\<forall>w. fst (random_uniform ops 0 1 w) < 1"
    and "draws_are_actions ops st" and "fit_step ag ops st = Inr st'"
  shows "draws_are_actions ops st'"
  using assms(4)
proof (cases rule: fit_step_cases)
  case (1 a io1 obs reward terminated truncated io2 next_values max_next_Q i j)
  obtain w lg where io: "fit_io st = (w, lg)" by (cases "fit_io st")
  have u: "fst (random_uniform ops 0 1 w) < 1" using assms(2) by blast
  obtain u' w1 where ru: "random_uniform ops 0 1 w = (u', w1)"
    by (cases "random_uniform ops 0 1 w")
  obtain a' w2 where ri: "random_randint ops 0 (int (action_space_n ops)) w1 = (a', w2)"
    by (cases "random_randint ops 0 (int (action_space_n ops)) w1")
  have io1: "a' = a" "io1 = (w2, lg @ [DrawUniform 0 1 u',
                                  DrawInt 0 (int (action_space_n ops)) a])"
    using 1(1) choose_action_explore [OF assms(1) u, of "state_action_values st"
        "current_state st" lg] io ru ri by auto
  have io2: "snd io2 = snd io1 @ [CallStep a obs reward terminated truncated]"
    using 1(2) by (auto simp: do_step_def split: prod.splits)
  have io3: "int_draws (snd (fit_io st')) = int_draws (snd io2)"
    using 1(7) by (auto simp: do_reset_def int_draws_def split: prod.splits)
  have "int_draws (snd (fit_io st')) = int_draws lg @ [DrawInt 0 (int (action_space_n ops)) a]"
    using io3 io2 io1 by (simp add: int_draws_def)
  then show ?thesis
    using assms(3) io 1(7) by (simp add: draws_are_actions_def)
qed

text \<open>
  Claim C7. With \<open>epsilon = 1\<close> and a random source whose uniform draws from \<open>[0, 1)\<close> are
  below 1, the choice of the action is the uniform draw followed by one integer draw over
  \<open>[0, A)\<close>, whose result is the action; the table and the current state play no part, so
  the tie-break argmax is not run. Over a whole run of \<^verbatim>\<open>fit\<close> the integer draws are one
  per step, each over \<open>[0, A)\<close>, and their results are the actions of the steps in order.
\<close>

theorem fit_always_explores:
  assumes "epsilon ag = 1" and "\<forall>w. fst (random_uniform ops 0 1 w) < 1"
  shows "choose_action ag ops q s (w, lg) =
           (let (u, w1) = random_uniform ops 0 1 w;
                (a, w2) = random_randint ops 0 (int (action_space_n ops)) w1
            in Inr (a, (w2, lg @ [DrawUniform 0 1 u,
                                  DrawInt 0 (int (action_space_n ops)) a])))
       \<and> (fit_train ag ops steps w0 = Inr fin \<longrightarrow>
            length (transitions fin) = nat steps
          \<and> int_draws (snd (fit_io fin)) =
              map (\<lambda>t. DrawInt 0 (int (action_space_n ops)) (fst (snd t))) (transitions fin))"
proof (intro conjI impI)
  show "choose_action ag ops q s (w, lg) =
           (let (u, w1) = random_uniform ops 0 1 w;
                (a, w2) = random_randint ops 0 (int (action_space_n ops)) w1
            in Inr (a, (w2, lg @ [DrawUniform 0 1 u,
                                  DrawInt 0 (int (action_space_n ops)) a])))"
    using assms by (simp add: choose_action_explore)
next
  assume run: "fit_train ag ops steps w0 = Inr fin"
  then show "length (transitions fin) = nat steps"
    by (cases rule: fit_train_loop) (auto dest: fit_loop_length)
  from run show "int_draws (snd (fit_io fin)) =
              map (\<lambda>t. DrawInt 0 (int (action_space_n ops)) (fst (snd t))) (transitions fin)"
  proof (cases rule: fit_train_loop)
    case (1 s0 io0)
    let ?st0 = "\<lparr> state_action_values =
               np_zeros2 (observation_space_n ops) (action_space_n ops),
             current_state = s0, all_rewards = [], transitions = [], fit_io = io0 \<rparr>"
    have init: "draws_are_actions ops ?st0"
      using 1(1)
      by (auto simp: draws_are_actions_def do_reset_def int_draws_def split: prod.splits)
    have "draws_are_actions ops fin"
      by (rule fit_loop_invariant [where P = "draws_are_actions ops", OF _ init 1(2)])
         (rule fit_step_draws_are_actions [OF assms])
    then show ?thesis by (simp add: draws_are_actions_def)
  qed
qed

lemma chain_uniform: "fst (random_uniform chain_ops 0 1 w) < 1"
proof -
  obtain pos c where w: "w = (pos, c)" by (cases w)
  have "c mod 4 < 4" by simp
  then have "real (c mod 4) < 4" by (metis of_nat_less_iff of_nat_numeral)
  then show ?thesis by (simp add: chain_ops_def w)
qed

theorem fit_always_explores_witness:
  "choose_action explorer chain_ops [[1, 2], [3, 4], [5, 6]] 7 ((0, 3), [])
     = Inr (0, ((0, 5), [DrawUniform 0 1 (3 / 4), DrawInt 0 2 0]))
   \<and> (\<exists>fin. fit_train explorer chain_ops 3 (0, 0) = Inr fin
         \<and> transitions fin = [(0, 0, 1, 1, False), (1, 1, 1 / 2, 2, True), (0, 0, 1, 1, False)]
         \<and> int_draws (snd (fit_io fin)) = [DrawInt 0 2 0, DrawInt 0 2 1, DrawInt 0 2 0])"
proof -
  let ?fin = "\<lparr> state_action_values = [[13 / 16, 0], [0, 1 / 4], [0, 0]],
        current_state = 1, all_rewards = [1, 1 / 2, 1],
        transitions = [(0, 0, 1, 1, False), (1, 1, 1 / 2, 2, True), (0, 0, 1, 1, False)],
        fit_io =
          ((1, 6 :: nat),
           [CallReset 0, DrawUniform 0 1 0, DrawInt 0 2 0, CallStep 0 1 1 False False,
            DrawUniform 0 1 (1 / 2), DrawInt 0 2 1, CallStep 1 2 (1 / 2) True False,
            CallReset 0, DrawUniform 0 1 0, DrawInt 0 2 0, CallStep 0 1 1 False False]) \<rparr>"
  have e: "epsilon explorer = 1" by (simp add: explorer_def)
  have u: "\<forall>w. fst (random_uniform chain_ops 0 1 w) < 1" by (simp add: chain_uniform)
  have train: "fit_train explorer chain_ops 3 (0, 0) = Inr ?fin" by code_simp
  from fit_always_explores [OF e u, of "[[1, 2], [3, 4], [5, 6]]" 7 "(0, 3)" "[]" 3 "(0, 0)" ?fin]
    train
  show ?thesis by (simp add: chain_ops_def)
qed

subsection \<open>Evaluation\<close>

lemma env_steps_append: "env_steps (xs @ ys) = env_steps xs @ env_steps ys"
  by (induction xs rule: env_steps.induct) simp_all

lemma tie_break_argmax_log:
  "tie_break_argmax ops row io = Inr (a, io1) \<Longrightarrow> \<exists>n k. snd io1 = snd io @ [DrawInt 0 n k]"
  by (auto simp: tie_break_argmax_def do_randint_def Let_def split: sum.splits prod.splits)

lemma predict_step_cases:
  assumes "predict_step ops st = Inr (st', done)"
  obtains action_values a io1 s r terminated truncated io2
  where "np_get (table st) (p_current_state st) = Inr action_values"
    and "tie_break_argmax ops action_values (p_io st) = Inr (a, io1)"
    and "do_step ops a io1 = ((s, r, terminated, truncated), io2)"
    and "snd io2 = snd io1 @ [CallStep a s r terminated truncated]"
    and "st' = st \<lparr> p_current_state := s, states := states st @ [s],
                     actions := actions st @ [a], rewards := rewards st @ [r],
                     p_io := io2 \<rparr>"
    and "done = (terminated \<or> truncated)"
proof -
  from assms obtain action_values a io1 s r terminated truncated io2
    where f: "np_get (table st) (p_current_state st) = Inr action_values"
    "tie_break_argmax ops action_values (p_io st) = Inr (a, io1)"
    "do_step ops a io1 = ((s, r, terminated, truncated), io2)"
    "st' = st \<lparr> p_current_state := s, states := states st @ [s],
                     actions := actions st @ [a], rewards := rewards st @ [r],
                     p_io := io2 \<rparr>"
    "done = (terminated \<or> truncated)"
    by (fastforce simp: predict_step_def Let_def split: sum.splits prod.splits)
  from f(3) have "snd io2 = snd io1 @ [CallStep a s r terminated truncated]"
    by (auto simp: do_step_def split: prod.splits)
  with f that show ?thesis by blast
qed

lemma predict_step_episode:
  assumes "predict_step ops st = Inr (st', done)" and "episode_so_far st"
  shows "episode_so_far st' \<and> table st' = table st
       \<and> (\<exists>rest. snd (p_io st') = snd (p_io st) @ rest)
       \<and> (\<exists>a s r. env_steps (snd (p_io st')) = env_steps (snd (p_io st)) @ [(a, s, r, done)])"
  using assms(1)
proof (cases rule: predict_step_cases)
  case (1 action_values a io1 s r terminated truncated io2)
  from tie_break_argmax_log [OF 1(2)] obtain n k where
    io1: "snd io1 = snd (p_io st) @ [DrawInt 0 n k]" by blast
  with 1(4) have "env_steps (snd io2) = env_steps (snd (p_io st)) @ [(a, s, r, done)]"
    using 1(6) by (simp add: env_steps_append)
  moreover have "\<exists>rest. snd io2 = snd (p_io st) @ rest" using io1 1(4) by simp
  ultimately show ?thesis using 1(5) assms(2) by (simp add: episode_so_far_def)
qed

lemma predict_loop_episode:
  assumes "predict_loop ops fuel st = Some (Inr st')"
    and "episode_so_far st" and "none_ended (snd (p_io st))"
  shows "episode_so_far st' \<and> table st' = table st
       \<and> (\<exists>rest. snd (p_io st') = snd (p_io st) @ rest)
       \<and> (\<exists>es a s r. env_steps (snd (p_io st')) = es @ [(a, s, r, True)]
             \<and> list_all (\<lambda>(a, s, r, d). \<not> d) es)"
  using assms
proof (induction fuel arbitrary: st)
  case 0
  then show ?case by simp
next
  case (Suc fuel)
  from Suc.prems(1) obtain s1 d where s1: "predict_step ops st = Inr (s1, d)"
    by (auto split: sum.splits)
  from predict_step_episode [OF s1 Suc.prems(2)] obtain a s r rest where
    e: "episode_so_far s1" and t: "table s1 = table st"
    and pre: "snd (p_io s1) = snd (p_io st) @ rest"
    and es: "env_steps (snd (p_io s1)) = env_steps (snd (p_io st)) @ [(a, s, r, d)]"
    by blast
  show ?case
  proof (cases d)
    case True
    with Suc.prems(1) s1 have "st' = s1" by simp
    with e t es pre True Suc.prems(3) show ?thesis by (auto simp: none_ended_def)
  next
    case False
    with Suc.prems(1) s1 have l: "predict_loop ops fuel s1 = Some (Inr st')" by simp
    have "none_ended (snd (p_io s1))"
      using es False Suc.prems(3) by (simp add: none_ended_def)
    from Suc.IH [OF l e this] t pre show ?thesis by auto
  qed
qed

lemma maximal_indices_nonempty:
  assumes "row \<noteq> []"
  shows "maximal_indices row \<noteq> {}"
proof -
  from assms have "Max (set row) \<in> set row" by simp
  then obtain i where "i < length row" "row ! i = Max (set row)"
    by (auto simp: in_set_conv_nth)
  then show ?thesis by (auto simp: maximal_indices_def)
qed

lemma tie_break_argmax_ok:
  assumes "row \<noteq> []" and "randint_contract ops"
  shows "\<exists>a n k. tie_break_argmax ops row io =
           Inr (int a, (snd (random_randint ops 0 n (fst io)), snd io @ [DrawInt 0 n k]))
         \<and> a < length row"
proof -
  let ?M = "maximal_indices row"
  let ?xs = "sorted_list_of_set ?M"
  let ?n = "int (card ?M)"
  obtain k w' where d: "random_randint ops 0 ?n (fst io) = (k, w')"
    by (cases "random_randint ops 0 ?n (fst io)")
  have fin: "finite ?M" by (rule maximal_indices_finite)
  have "card ?M \<noteq> 0" using maximal_indices_nonempty [OF assms(1)] fin by simp
  then have "0 < ?n" by simp
  with assms(2) d have k: "0 \<le> k" "k < ?n"
    unfolding randint_contract_def by (metis fst_conv)+
  have len: "length ?xs = card ?M" by simp
  have "nat k < card ?M" using k by linarith
  then have "?xs ! nat k \<in> ?M"
    using len fin by (metis nth_mem set_sorted_list_of_set)
  then have lt: "?xs ! nat k < length row" by (simp add: maximal_indices_def)
  have get: "np_get ?xs k = Inr (?xs ! nat k)"
    using k len by (simp add: np_get_in_range)
  have "tie_break_argmax ops row io =
           Inr (int (?xs ! nat k), (w', snd io @ [DrawInt 0 ?n k]))"
    using assms(1) d get
    by (simp add: tie_break_argmax_def np_max_eq_Max np_where_eq_maximal do_randint_def)
  with d lt show ?thesis by (metis snd_conv)
qed

lemma predict_step_ok:
  assumes "env_contract ops" and "randint_contract ops" and "episodes_end ops m"
    and "0 < action_space_n ops" and "predict_ready ops st"
  shows "\<exists>st' d. predict_step ops st = Inr (st', d) \<and> predict_ready ops st'
           \<and> (\<not> d \<longrightarrow> m (fst (p_io st')) < m (fst (p_io st)))"
proof -
  let ?S = "observation_space_n ops" and ?A = "action_space_n ops"
  from assms(5) have sh: "table_shape ?S ?A (table st)"
    and cs: "0 \<le> p_current_state st" "p_current_state st < int ?S"
    by (simp_all add: predict_ready_def)
  from sh have S: "length (table st) = ?S" by (simp add: table_shape_def)
  let ?row = "table st ! nat (p_current_state st)"
  have get: "np_get (table st) (p_current_state st) = Inr ?row"
    using cs S by (simp add: np_get_in_range)
  have rl: "length ?row = ?A" using table_shape_row [OF sh] cs by simp
  then have ne: "?row \<noteq> []" using assms(4) by auto
  from tie_break_argmax_ok [OF ne assms(2), of "p_io st"] obtain a n k where
    tb: "tie_break_argmax ops ?row (p_io st) =
           Inr (int a, (snd (random_randint ops 0 n (fst (p_io st))),
                        snd (p_io st) @ [DrawInt 0 n k]))"
    and a: "a < ?A" using rl by auto
  let ?w1 = "snd (random_randint ops 0 n (fst (p_io st)))"
  let ?lg1 = "snd (p_io st) @ [DrawInt 0 n k]"
  obtain s r te tr w2 where es: "env_step ops (int a) ?w1 = ((s, r, te, tr), w2)"
    by (cases "env_step ops (int a) ?w1") auto
  let ?st' = "st \<lparr> p_current_state := s, states := states st @ [s],
                     actions := actions st @ [int a], rewards := rewards st @ [r],
                     p_io := (w2, ?lg1 @ [CallStep (int a) s r te tr]) \<rparr>"
  have run: "predict_step ops st = Inr (?st', te \<or> tr)"
    using get tb es by (simp add: predict_step_def do_step_def)
  have s: "0 \<le> s" "s < int ?S"
    using assms(1) a es unfolding env_contract_def
    by (metis fst_conv of_nat_0_le_iff of_nat_less_iff)+
  have ready: "predict_ready ops ?st'"
    using sh s by (simp add: predict_ready_def)
  have m1: "m ?w1 \<le> m (fst (p_io st))"
    using assms(3) by (simp add: episodes_end_def)
  have "\<not> (te \<or> tr) \<longrightarrow> m w2 < m ?w1"
    using assms(3) es unfolding episodes_end_def step_ends_def
    by (metis (mono_tags, lifting) case_prod_conv fst_conv snd_conv)
  with m1 have "\<not> (te \<or> tr) \<longrightarrow> m (fst (p_io ?st')) < m (fst (p_io st))" by auto
  with run ready show ?thesis by blast
qed

lemma predict_loop_returns:
  assumes "env_contract ops" and "randint_contract ops" and "episodes_end ops m"
    and "0 < action_space_n ops"
  shows "predict_ready ops st \<Longrightarrow> m (fst (p_io st)) < fuel \<Longrightarrow>
           \<exists>st'. predict_loop ops fuel st = Some (Inr st')"
proof (induction fuel arbitrary: st)
  case 0
  then show ?case by simp
next
  case (Suc fuel)
  from predict_step_ok [OF assms Suc.prems(1)] obtain s1 d where
    s1: "predict_step ops st = Inr (s1, d)" and r: "predict_ready ops s1"
    and dec: "\<not> d \<longrightarrow> m (fst (p_io s1)) < m (fst (p_io st))" by blast
  show ?case
  proof (cases d)
    case True
    with s1 show ?thesis by simp
  next
    case False
    with dec Suc.prems(2) have "m (fst (p_io s1)) < fuel" by linarith
    from Suc.IH [OF r this] s1 False show ?thesis by simp
  qed
qed

lemma predict_loop_more_fuel:
  "predict_loop ops fuel st = Some r \<Longrightarrow> predict_loop ops (fuel + k) st = Some r"
proof (induction fuel arbitrary: st)
  case 0
  then show ?case by simp
next
  case (Suc fuel)
  then show ?case by (auto split: sum.splits if_splits)
qed

lemma predict_returns:
  assumes "env_contract ops" and "randint_contract ops" and "episodes_end ops m"
    and "0 < action_space_n ops"
    and "table_shape (observation_space_n ops) (action_space_n ops) q"
  shows "\<exists>st. \<forall>fuel > m (snd (env_reset ops w)). predict ops q w fuel = Some (Inr st)"
proof -
  obtain s0 w0 where r: "env_reset ops w = (s0, w0)" by (cases "env_reset ops w")
  let ?st0 = "\<lparr> table = q, p_current_state = s0, states = [], actions = [], rewards = [],
               p_io = (w0, [CallReset s0]) \<rparr>"
  have p: "\<And>fuel. predict ops q w fuel = predict_loop ops fuel ?st0"
    using r by (simp add: predict_def do_reset_def)
  from assms(1) have "0 \<le> fst (env_reset ops w)
      \<and> fst (env_reset ops w) < int (observation_space_n ops)"
    by (simp add: env_contract_def)
  with r have "0 \<le> s0 \<and> s0 < int (observation_space_n ops)" by simp
  with assms(5) have ready: "predict_ready ops ?st0" by (simp add: predict_ready_def)
  have "m (fst (p_io ?st0)) < Suc (m w0)" by simp
  from predict_loop_returns [OF assms(1-4) ready this] obtain st where
    st: "predict_loop ops (Suc (m w0)) ?st0 = Some (Inr st)" by blast
  have "\<forall>fuel > m (snd (env_reset ops w)). predict ops q w fuel = Some (Inr st)"
  proof (intro allI impI)
    fix fuel assume "m (snd (env_reset ops w)) < fuel"
    with r have "fuel = Suc (m w0) + (fuel - Suc (m w0))" by simp
    with predict_loop_more_fuel [OF st, of "fuel - Suc (m w0)"] p
    show "predict ops q w fuel = Some (Inr st)" by simp
  qed
  then show ?thesis by blast
qed

text \<open>
  Claim C6. \<^verbatim>\<open>predict\<close> does not change the table it is given: every iteration of its loop
  leaves the table as it was, and the table at the return of \<^verbatim>\<open>predict\<close> is the table
  that was passed.
\<close>

theorem predict_table_unchanged:
  "(predict_step ops st = Inr (st', done) \<longrightarrow> table st' = table st)
   \<and> (predict ops q w fuel = Some (Inr fin) \<longrightarrow> table fin = q)"
proof (intro conjI impI)
  assume "predict_step ops st = Inr (st', done)"
  then show "table st' = table st" by (cases rule: predict_step_cases) simp
next
  assume run: "predict ops q w fuel = Some (Inr fin)"
  obtain s0 w0 where r: "env_reset ops w = (s0, w0)" by (cases "env_reset ops w")
  let ?st0 = "\<lparr> table = q, p_current_state = s0, states = [], actions = [], rewards = [],
               p_io = (w0, [CallReset s0]) \<rparr>"
  have l: "predict_loop ops fuel ?st0 = Some (Inr fin)"
    using run r by (simp add: predict_def do_reset_def)
  have "episode_so_far ?st0" "none_ended (snd (p_io ?st0))"
    by (simp_all add: episode_so_far_def none_ended_def)
  from predict_loop_episode [OF l this] show "table fin = q" by simp
qed

text \<open>
  Claim C8. When \<^verbatim>\<open>predict\<close> returns, its three lists have the same length \<open>K\<close>, the
  number of calls of \<^verbatim>\<open>env.step\<close> it made; they hold, in order, the state reported by
  each step, the action passed to it and its reward. The last step is the first one that
  ended the episode, and the state of the initial reset, which comes first among the
  events, is not among the recorded states. And \<^verbatim>\<open>predict\<close> does return: for collaborators
  that keep their contracts, an environment whose episodes end and a table of the
  environment's shape, every sufficient fuel gives the same result.
\<close>

theorem predict_trajectory:
  "(predict ops q w fuel = Some (Inr fin) \<longrightarrow>
      length (states fin) = length (env_steps (snd (p_io fin)))
    \<and> length (actions fin) = length (env_steps (snd (p_io fin)))
    \<and> length (rewards fin) = length (env_steps (snd (p_io fin)))
    \<and> states fin = map (\<lambda>(a, s, r, d). s) (env_steps (snd (p_io fin)))
    \<and> actions fin = map (\<lambda>(a, s, r, d). a) (env_steps (snd (p_io fin)))
    \<and> rewards fin = map (\<lambda>(a, s, r, d). r) (env_steps (snd (p_io fin)))
    \<and> (\<exists>es a s r. env_steps (snd (p_io fin)) = es @ [(a, s, r, True)]
          \<and> list_all (\<lambda>(a, s, r, d). \<not> d) es)
    \<and> (\<exists>rest. snd (p_io fin) = CallReset (fst (env_reset ops w)) # rest))
   \<and> (env_contract ops \<and> randint_contract ops \<and> episodes_end ops m
      \<and> 0 < action_space_n ops
      \<and> table_shape (observation_space_n ops) (action_space_n ops) q \<longrightarrow>
      (\<exists>st. \<forall>fuel > m (snd (env_reset ops w)). predict ops q w fuel = Some (Inr st)))"
proof (intro conjI impI)
  assume "env_contract ops \<and> randint_contract ops \<and> episodes_end ops m
      \<and> 0 < action_space_n ops
      \<and> table_shape (observation_space_n ops) (action_space_n ops) q"
  then show "\<exists>st. \<forall>fuel > m (snd (env_reset ops w)). predict ops q w fuel = Some (Inr st)"
    using predict_returns [of ops m q w] by simp
next
  assume run: "predict ops q w fuel = Some (Inr fin)"
  obtain s0 w0 where r: "env_reset ops w = (s0, w0)" by (cases "env_reset ops w")
  let ?st0 = "\<lparr> table = q, p_current_state = s0, states = [], actions = [], rewards = [],
               p_io = (w0, [CallReset s0]) \<rparr>"
  have l: "predict_loop ops fuel ?st0 = Some (Inr fin)"
    using run r by (simp add: predict_def do_reset_def)
  have "episode_so_far ?st0" "none_ended (snd (p_io ?st0))"
    by (simp_all add: episode_so_far_def none_ended_def)
  from predict_loop_episode [OF l this]
  have e: "episode_so_far fin"
    and pre: "\<exists>rest. snd (p_io fin) = [CallReset s0] @ rest"
    and fin: "\<exists>es a s r. env_steps (snd (p_io fin)) = es @ [(a, s, r, True)]
          \<and> list_all (\<lambda>(a, s, r, d). \<not> d) es"
    by simp_all
  from e show "states fin = map (\<lambda>(a, s, r, d). s) (env_steps (snd (p_io fin)))"
    "actions fin = map (\<lambda>(a, s, r, d). a) (env_steps (snd (p_io fin)))"
    "rewards fin = map (\<lambda>(a, s, r, d). r) (env_steps (snd (p_io fin)))"
    by (simp_all add: episode_so_far_def)
  then show "length (states fin) = length (env_steps (snd (p_io fin)))"
    "length (actions fin) = length (env_steps (snd (p_io fin)))"
    "length (rewards fin) = length (env_steps (snd (p_io fin)))"
    by simp_all
  from fin show "\<exists>es a s r. env_steps (snd (p_io fin)) = es @ [(a, s, r, True)]
          \<and> list_all (\<lambda>(a, s, r, d). \<not> d) es" .
  from pre r show "\<exists>rest. snd (p_io fin) = CallReset (fst (env_reset ops w)) # rest" by simp
qed

lemma chain_env_contract: "env_contract chain_ops"
  by (auto simp: env_contract_def chain_ops_def Let_def)

lemma chain_randint_contract: "randint_contract chain_ops"
  unfolding randint_contract_def
proof (intro allI impI)
  fix lo hi :: int and w :: "nat \<times> nat"
  assume "lo < hi"
  obtain pos c where w: "w = (pos, c)" by (cases w)
  have "0 \<le> int (c div 2) mod (hi - lo)" "int (c div 2) mod (hi - lo) < hi - lo"
    using \<open>lo < hi\<close> by simp_all
  then show "lo \<le> fst (random_randint chain_ops lo hi w)
      \<and> fst (random_randint chain_ops lo hi w) < hi"
    by (simp add: chain_ops_def w)
qed

lemma chain_episodes_end: "episodes_end chain_ops (\<lambda>(pos, c). 2 - pos)"
  by (auto simp: episodes_end_def step_ends_def chain_ops_def Let_def)

lemma chain_predict: "predict chain_ops chain_table (0, 0) 3 = Some (Inr chain_episode)"
  by code_simp

theorem predict_table_unchanged_witness:
  "predict_step chain_ops
     \<lparr> table = chain_table, p_current_state = 0, states = [], actions = [], rewards = [],
       p_io = ((0, 0), [CallReset 0]) \<rparr>
   = Inr (\<lparr> table = chain_table, p_current_state = 1, states = [1], actions = [1],
            rewards = [1 / 2],
            p_io = ((1, 1), [CallReset 0, DrawInt 0 1 0, CallStep 1 1 (1 / 2) False False]) \<rparr>,
          False)
   \<and> predict chain_ops chain_table (0, 0) 3 = Some (Inr chain_episode)
   \<and> table chain_episode = chain_table"
proof -
  let ?st = "\<lparr> table = chain_table, p_current_state = 0, states = [], actions = [],
       rewards = [], p_io = ((0, 0 :: nat), [CallReset 0]) \<rparr>"
  let ?st' = "\<lparr> table = chain_table, p_current_state = 1, states = [1], actions = [1],
            rewards = [1 / 2],
            p_io = ((1, 1 :: nat),
                    [CallReset 0, DrawInt 0 1 0, CallStep 1 1 (1 / 2) False False]) \<rparr>"
  have step: "predict_step chain_ops ?st = Inr (?st', False)" by code_simp
  from predict_table_unchanged [of chain_ops ?st ?st' False chain_table "(0, 0)" 3 chain_episode]
    step chain_predict
  show ?thesis by simp
qed

lemma chain_table_shape: "table_shape 3 2 chain_table"
  by (simp add: table_shape_def chain_table_def)

theorem predict_trajectory_witness:
  "predict chain_ops chain_table (0, 0) 3 = Some (Inr chain_episode)
   \<and> env_steps (snd (p_io chain_episode)) = [(1, 1, 1 / 2, False), (0, 2, 1, True)]
   \<and> states chain_episode = [1, 2] \<and> actions chain_episode = [1, 0]
   \<and> rewards chain_episode = [1 / 2, 1]
   \<and> predict chain_ops chain_table (0, 0) 7 = Some (Inr chain_episode)"
proof -
  have c: "env_contract chain_ops \<and> randint_contract chain_ops
      \<and> episodes_end chain_ops (\<lambda>(pos, c). 2 - pos) \<and> 0 < action_space_n chain_ops
      \<and> table_shape (observation_space_n chain_ops) (action_space_n chain_ops) chain_table"
    using chain_env_contract chain_randint_contract chain_episodes_end chain_table_shape
    by (simp add: chain_ops_def)
  have m: "(\<lambda>(pos, c). 2 - pos) (snd (env_reset chain_ops (0, 0 :: nat))) = (2 :: nat)"
    by (simp add: chain_ops_def)
  have es: "env_steps (snd (p_io chain_episode)) = [(1, 1, 1 / 2, False), (0, 2, 1, True)]"
    by (simp add: chain_episode_def)
  from predict_trajectory [of chain_ops chain_table "(0, 0)" 3 chain_episode
      "\<lambda>(pos, c). 2 - pos"] chain_predict c
  have props: "states chain_episode = map (\<lambda>(a, s, r, d). s) (env_steps (snd (p_io chain_episode)))
      \<and> actions chain_episode = map (\<lambda>(a, s, r, d). a) (env_steps (snd (p_io chain_episode)))
      \<and> rewards chain_episode = map (\<lambda>(a, s, r, d). r) (env_steps (snd (p_io chain_episode)))"
    and total: "\<exists>st. \<forall>fuel > (\<lambda>(pos, c). 2 - pos) (snd (env_reset chain_ops (0, 0 :: nat))).
        predict chain_ops chain_table (0, 0) fuel = Some (Inr st)"
    by blast+
  from total obtain st where
    st: "\<forall>fuel > 2. predict chain_ops chain_table (0, 0) fuel = Some (Inr st)"
    unfolding m by blast
  then have "predict chain_ops chain_table (0, 0) 3 = Some (Inr st)" by simp
  with chain_predict have "st = chain_episode" by simp
  with st have "predict chain_ops chain_table (0, 0) 7 = Some (Inr chain_episode)" by simp
  with props es chain_predict show ?thesis by simp
qed

subsection \<open>Reward bins\<close>

lemma py_slice_nonneg:
  assumes "0 \<le> s" and "0 \<le> e"
  shows "py_slice xs s e = take (nat e - nat s) (drop (nat s) xs)"
proof (cases "nat s \<le> length xs")
  case True
  have "take (min (length xs) (nat e) - nat s) (drop (nat s) xs)
      = take (nat e - nat s) (drop (nat s) xs)"
    by (cases "nat e \<le> length xs") (simp_all add: min_def)
  with True assms show ?thesis by (simp add: py_slice_def py_clip_def min_def not_less Let_def)
next
  case False
  with assms show ?thesis by (simp add: py_slice_def py_clip_def min_def not_less Let_def)
qed

lemma bin_size_pos:
  assumes "1 \<le> steps" and "1 \<le> num_bins"
  shows "1 \<le> \<lceil>real_of_int steps / real_of_int num_bins\<rceil>"
proof -
  have "0 < real_of_int steps / real_of_int num_bins" using assms by simp
  then show ?thesis by linarith
qed

lemma bin_average_mean:
  assumes "1 \<le> steps" and "1 \<le> num_bins" and "i < nat num_bins"
    and "bin_entries trace steps num_bins i \<noteq> []"
  shows "bin_average trace num_bins \<lceil>real_of_int steps / real_of_int num_bins\<rceil> (int i)
       = Num (sum_list (bin_entries trace steps num_bins i)
              / real (length (bin_entries trace steps num_bins i)))"
proof -
  let ?bs = "\<lceil>real_of_int steps / real_of_int num_bins\<rceil>"
  have bs: "1 \<le> ?bs" by (rule bin_size_pos [OF assms(1,2)])
  have start: "0 \<le> int i * ?bs" using bs by simp
  have ns: "nat (int i * ?bs) = i * nat ?bs" using bs by (simp add: nat_mult_distrib)
  show ?thesis
  proof (cases "int i < num_bins - 1")
    case True
    then have ne: "i \<noteq> nat num_bins - 1" by linarith
    have end_ind: "0 \<le> int i * ?bs + ?bs" using bs start by linarith
    have "nat (int i * ?bs + ?bs) - nat (int i * ?bs) = nat ?bs"
      using bs start by linarith
    then have "py_slice trace (int i * ?bs) (int i * ?bs + ?bs)
        = bin_entries trace steps num_bins i"
      using ne ns by (simp add: py_slice_nonneg [OF start end_ind] bin_entries_def Let_def)
    with True bs assms(4) show ?thesis
      by (simp add: bin_average_def np_mean_def)
  next
    case False
    with assms(3) have last: "i = nat num_bins - 1" by linarith
    then have be: "bin_entries trace steps num_bins i = drop (i * nat ?bs) trace"
      by (simp add: bin_entries_def Let_def)
    with assms(4) have lt: "i * nat ?bs < length trace" by simp
    then have gt: "int (length trace) > int i * ?bs" using ns start by linarith
    have "py_slice trace (int i * ?bs) (int (length trace)) = drop (i * nat ?bs) trace"
      using ns by (simp add: py_slice_nonneg [OF start])
    with False gt be assms(4) show ?thesis
      by (simp add: bin_average_def np_mean_def)
  qed
qed

lemma avg_rewards_nth:
  "i < nat num_bins \<Longrightarrow>
     avg_rewards trace steps num_bins ! i =
       bin_average trace num_bins \<lceil>real_of_int steps / real_of_int num_bins\<rceil> (int i)"
  by (simp add: avg_rewards_def)

lemma avg_rewards_length: "length (avg_rewards trace steps num_bins) = nat num_bins"
  by (simp add: avg_rewards_def)

subsection \<open>The training loop raises nothing under the contracts\<close>

lemma choose_action_log:
  assumes "choose_action ag ops q s io = Inr (a, io1)"
  shows "\<exists>evs. snd io1 = snd io @ evs \<and> env_steps evs = []"
proof (cases "fst (do_uniform ops 0 1 io) < epsilon ag")
  case True
  with assms show ?thesis
    by (auto simp: choose_action_def do_uniform_def do_randint_def split: prod.splits)
next
  case False
  obtain u io0 where u: "do_uniform ops 0 1 io = (u, io0)" by (cases "do_uniform ops 0 1 io")
  then have l0: "snd io0 = snd io @ [DrawUniform 0 1 u]"
    by (auto simp: do_uniform_def split: prod.splits)
  from assms False u obtain row where "tie_break_argmax ops row io0 = Inr (a, io1)"
    by (auto simp: choose_action_def split: sum.splits)
  from tie_break_argmax_log [OF this] obtain n k where
    "snd io1 = snd io0 @ [DrawInt 0 n k]" by blast
  with l0 show ?thesis by simp
qed

lemma fit_step_rewards_logged:
  assumes "rewards_logged st" and "fit_step ag ops st = Inr st'"
  shows "rewards_logged st'"
  using assms(2)
proof (cases rule: fit_step_cases)
  case (1 a io1 obs reward terminated truncated io2 next_values max_next_Q i j)
  from choose_action_log [OF 1(1)] obtain evs where
    e1: "snd io1 = snd (fit_io st) @ evs" "env_steps evs = []" by blast
  have e2: "snd io2 = snd io1 @ [CallStep a obs reward terminated truncated]"
    using 1(2) by (auto simp: do_step_def split: prod.splits)
  have e3: "env_steps (snd (fit_io st')) = env_steps (snd io2)"
    using 1(7) by (auto simp: do_reset_def env_steps_append split: prod.splits)
  have "env_steps (snd (fit_io st'))
      = env_steps (snd (fit_io st)) @ [(a, obs, reward, terminated \<or> truncated)]"
    using e1 e2 e3 by (simp add: env_steps_append)
  with assms(1) 1(7) show ?thesis by (simp add: rewards_logged_def)
qed

lemma choose_action_ok:
  assumes "randint_contract ops" and "0 < action_space_n ops"
    and "table_shape (observation_space_n ops) (action_space_n ops) q"
    and "0 \<le> s" and "s < int (observation_space_n ops)"
  shows "\<exists>a io1. choose_action ag ops q s io = Inr (a, io1)
           \<and> 0 \<le> a \<and> a < int (action_space_n ops)"
proof -
  let ?A = "action_space_n ops"
  obtain u io0 where u: "do_uniform ops 0 1 io = (u, io0)" by (cases "do_uniform ops 0 1 io")
  show ?thesis
  proof (cases "u < epsilon ag")
    case True
    obtain a io1 where d: "do_randint ops 0 (int ?A) io0 = (a, io1)"
      by (cases "do_randint ops 0 (int ?A) io0")
    then have "a = fst (random_randint ops 0 (int ?A) (fst io0))"
      by (auto simp: do_randint_def split: prod.splits)
    with assms(1,2) have "0 \<le> a \<and> a < int ?A" by (simp add: randint_contract_def)
    with True u d show ?thesis by (simp add: choose_action_def)
  next
    case False
    let ?row = "q ! nat s"
    from assms(3) have S: "length q = observation_space_n ops" by (simp add: table_shape_def)
    have get: "np_get q s = Inr ?row" using assms(4,5) S by (simp add: np_get_in_range)
    have rl: "length ?row = ?A" using table_shape_row [OF assms(3)] assms(4,5) by simp
    then have ne: "?row \<noteq> []" using assms(2) by auto
    from tie_break_argmax_ok [OF ne assms(1), of io0] rl obtain a io1 where
      "tie_break_argmax ops ?row io0 = Inr (int a, io1)" "a < ?A" by auto
    with False u get show ?thesis by (simp add: choose_action_def)
  qed
qed

lemma fit_step_ok:
  assumes "env_contract ops" and "randint_contract ops" and "0 < action_space_n ops"
    and "fit_ready ops st"
  shows "\<exists>st'. fit_step ag ops st = Inr st' \<and> fit_ready ops st'"
proof -
  let ?S = "observation_space_n ops" and ?A = "action_space_n ops"
  let ?q = "state_action_values st"
  from assms(4) have sh: "table_shape ?S ?A ?q"
    and cs: "0 \<le> current_state st" "current_state st < int ?S"
    by (simp_all add: fit_ready_def)
  from sh have S: "length ?q = ?S" by (simp add: table_shape_def)
  from choose_action_ok [OF assms(2,3) sh cs, of ag "fit_io st"] obtain a io1 where
    ch: "choose_action ag ops ?q (current_state st) (fit_io st) = Inr (a, io1)"
    and a: "0 \<le> a" "a < int ?A" by blast
  obtain obs reward terminated truncated io2 where
    ds: "do_step ops a io1 = ((obs, reward, terminated, truncated), io2)"
    by (cases "do_step ops a io1") auto
  then have "obs = fst (fst (env_step ops a (fst io1)))"
    by (auto simp: do_step_def split: prod.splits)
  with assms(1) a have obs: "0 \<le> obs" "obs < int ?S" by (simp_all add: env_contract_def)
  obtain next_state io3 where
    rs: "(if truncated \<or> terminated then do_reset ops io2 else (0, io2)) = (next_state, io3)"
    by (cases "if truncated \<or> terminated then do_reset ops io2 else (0, io2)")
  have "fst (do_reset ops io2) = fst (env_reset ops (fst io2))"
    by (simp add: do_reset_def split: prod.splits)
  with assms(1) have "0 \<le> fst (do_reset ops io2)" "fst (do_reset ops io2) < int ?S"
    by (simp_all add: env_contract_def)
  with rs obs have nxt: "0 \<le> (if truncated \<or> terminated then next_state else obs)"
    "(if truncated \<or> terminated then next_state else obs) < int ?S"
    by (auto split: if_splits)
  have get: "np_get ?q obs = Inr (?q ! nat obs)" using obs S by (simp add: np_get_in_range)
  have "length (?q ! nat obs) = ?A" using table_shape_row [OF sh] obs by simp
  then have "?q ! nat obs \<noteq> []" using assms(3) by auto
  then have mx: "np_max (?q ! nat obs) = Inr (Max (set (?q ! nat obs)))"
    by (rule np_max_eq_Max)
  have i: "np_index (length ?q) (current_state st) = Inr (nat (current_state st))"
    using cs S by (simp add: np_index_in_range)
  have "length (?q ! nat (current_state st)) = ?A" using table_shape_row [OF sh] cs by simp
  then have j: "np_index (length (?q ! nat (current_state st))) a = Inr (nat a)"
    using a by (simp add: np_index_in_range)
  let ?st' = "\<lparr> state_action_values =
      ?q[nat (current_state st) := (?q ! nat (current_state st))[nat a :=
         ?q ! nat (current_state st) ! nat a
         + alpha ag * (reward + gamma ag * Max (set (?q ! nat obs))
                       - ?q ! nat (current_state st) ! nat a)]],
      current_state = (if truncated \<or> terminated then next_state else obs),
      all_rewards = all_rewards st @ [reward],
      transitions = transitions st
        @ [(current_state st, a, reward, obs, truncated \<or> terminated)],
      fit_io = io3 \<rparr>"
  have run: "fit_step ag ops st = Inr ?st'"
    using ch ds rs get mx i j by (simp add: fit_step_def Let_def)
  have "table_shape ?S ?A (state_action_values ?st')"
    using sh by (simp add: table_shape_def list_all_length length_update2)
  with nxt have "fit_ready ops ?st'" by (simp add: fit_ready_def)
  with run show ?thesis by blast
qed

lemma fit_loop_ok:
  assumes "env_contract ops" and "randint_contract ops" and "0 < action_space_n ops"
  shows "fit_ready ops st \<Longrightarrow> \<exists>st'. fit_loop ag ops n st = Inr st'"
proof (induction n arbitrary: st)
  case 0
  then show ?case by simp
next
  case (Suc n)
  from fit_step_ok [OF assms Suc.prems] obtain s1 where
    "fit_step ag ops st = Inr s1" "fit_ready ops s1" by blast
  with Suc.IH [of s1] show ?case by simp
qed

lemma fit_train_ok:
  assumes "env_contract ops" and "randint_contract ops" and "0 < action_space_n ops"
  shows "\<exists>fin. fit_train ag ops steps w = Inr fin"
proof -
  obtain s0 io0 where r: "do_reset ops (w, []) = (s0, io0)" by (cases "do_reset ops (w, [])")
  then have "s0 = fst (env_reset ops w)" by (auto simp: do_reset_def split: prod.splits)
  with assms(1) have "0 \<le> s0" "s0 < int (observation_space_n ops)"
    by (simp_all add: env_contract_def)
  then have "fit_ready ops
     \<lparr> state_action_values = np_zeros2 (observation_space_n ops) (action_space_n ops),
       current_state = s0, all_rewards = [], transitions = [], fit_io = io0 \<rparr>"
    by (simp add: fit_ready_def table_shape_zeros)
  from fit_loop_ok [OF assms this] r show ?thesis by (simp add: fit_train_def)
qed

lemma fit_train_rewards_logged:
  assumes "fit_train ag ops steps w = Inr fin"
  shows "rewards_logged fin \<and> length (all_rewards fin) = nat steps"
  using assms
proof (cases rule: fit_train_loop)
  case (1 s0 io0)
  let ?st0 = "\<lparr> state_action_values =
               np_zeros2 (observation_space_n ops) (action_space_n ops),
             current_state = s0, all_rewards = [], transitions = [], fit_io = io0 \<rparr>"
  have init: "rewards_logged ?st0"
    using 1(1) by (auto simp: rewards_logged_def do_reset_def split: prod.splits)
  have "rewards_logged fin"
    by (rule fit_loop_invariant [where P = rewards_logged, OF _ init 1(2)])
       (rule fit_step_rewards_logged)
  moreover have "length (all_rewards fin) = nat steps"
    using fit_loop_length [OF 1(2)] by simp
  ultimately show ?thesis by simp
qed

text \<open>
  Claim C3. For \<open>steps \<ge> 1\<close> and \<open>num_bins \<ge> 1\<close>, the averaged rewards that \<^verbatim>\<open>fit\<close>
  returns are \<open>num_bins\<close> values; the raw trace, the rewards of the \<open>steps\<close> calls of
  \<^verbatim>\<open>env.step\<close>, is cut with \<open>bin_size = ceil (steps / num_bins)\<close>, and every bin that
  covers at least one entry of the trace is the arithmetic mean of the entries it covers.
  And \<^verbatim>\<open>fit\<close> does return when the collaborators keep their contracts and there is at
  least one action.
\<close>

theorem fit_reward_bins:
  assumes "1 \<le> steps" and "1 \<le> num_bins"
  shows "(fit ag ops steps num_bins w = Inr ((q, avg), lg) \<longrightarrow>
            length avg = nat num_bins
          \<and> length (env_steps lg) = nat steps
          \<and> (\<forall>i < nat num_bins.
                bin_entries (map (\<lambda>(a, s, r, d). r) (env_steps lg)) steps num_bins i \<noteq> [] \<longrightarrow>
                avg ! i =
                  Num (sum_list
                         (bin_entries (map (\<lambda>(a, s, r, d). r) (env_steps lg)) steps num_bins i)
                       / real (length
                         (bin_entries (map (\<lambda>(a, s, r, d). r) (env_steps lg)) steps num_bins i)))))
       \<and> (env_contract ops \<and> randint_contract ops \<and> 0 < action_space_n ops \<longrightarrow>
            (\<exists>q avg lg. fit ag ops steps num_bins w = Inr ((q, avg), lg)))"
proof (intro conjI impI allI)
  assume "env_contract ops \<and> randint_contract ops \<and> 0 < action_space_n ops"
  then obtain fin where "fit_train ag ops steps w = Inr fin"
    using fit_train_ok [of ops ag steps w] by blast
  with assms(2) show "\<exists>q avg lg. fit ag ops steps num_bins w = Inr ((q, avg), lg)"
    by (simp add: fit_def)
next
  assume run: "fit ag ops steps num_bins w = Inr ((q, avg), lg)"
  then obtain fin where fin: "fit_train ag ops steps w = Inr fin"
    and avg: "avg = avg_rewards (all_rewards fin) steps num_bins"
    and lg: "lg = snd (fit_io fin)" by (rule fit_Inr)
  from fit_train_rewards_logged [OF fin]
  have rl: "rewards_logged fin" and len: "length (all_rewards fin) = nat steps"
    by simp_all
  from rl lg have tr: "all_rewards fin = map (\<lambda>(a, s, r, d). r) (env_steps lg)"
    by (simp add: rewards_logged_def)
  show "length avg = nat num_bins" using avg by (simp add: avg_rewards_length)
  show "length (env_steps lg) = nat steps" using tr len by simp
  fix i
  assume i: "i < nat num_bins"
    and ne: "bin_entries (map (\<lambda>(a, s, r, d). r) (env_steps lg)) steps num_bins i \<noteq> []"
  from bin_average_mean [OF assms i ne] avg tr i
  show "avg ! i =
      Num (sum_list (bin_entries (map (\<lambda>(a, s, r, d). r) (env_steps lg)) steps num_bins i)
           / real (length
                (bin_entries (map (\<lambda>(a, s, r, d). r) (env_steps lg)) steps num_bins i)))"
    by (simp add: avg_rewards_nth)
qed

lemma chain_fit_contracts:
  "env_contract chain_ops \<and> randint_contract chain_ops \<and> 0 < action_space_n chain_ops"
  using chain_env_contract chain_randint_contract by (simp add: chain_ops_def)

theorem fit_reward_bins_witness:
  "fit half_agent chain_ops 5 2 (0, 0) =
     Inr (([[1, 0], [0, 3 / 8], [0, 0]], [Num (5 / 6), Num (3 / 4)]),
      [CallReset 0, DrawUniform 0 1 0, DrawInt 0 2 0,
       CallStep 0 1 1 False False, DrawUniform 0 1 (1 / 2), DrawInt 0 2 1,
       CallStep 1 2 (1 / 2) True False, CallReset 0, DrawUniform 0 1 0,
       DrawInt 0 2 0, CallStep 0 1 1 False False, DrawUniform 0 1 (1 / 2),
       DrawInt 0 1 0, CallStep 1 2 (1 / 2) True False, CallReset 0,
       DrawUniform 0 1 0, DrawInt 0 2 0, CallStep 0 1 1 False False])
   \<and> bin_entries [1, 1 / 2, 1, 1 / 2, 1] 5 2 0 = [1, 1 / 2, 1]
   \<and> bin_entries [1, 1 / 2, 1, 1 / 2, 1] 5 2 1 = [1 / 2, 1]
   \<and> [Num (5 / 6), Num (3 / 4)] ! 0 = Num ((1 + 1 / 2 + 1) / 3)
   \<and> [Num (5 / 6), Num (3 / 4)] ! 1 = Num ((1 / 2 + 1) / 2)"
proof -
  let ?lg = "[CallReset 0, DrawUniform 0 1 0, DrawInt 0 2 0,
       CallStep 0 1 1 False False, DrawUniform 0 1 (1 / 2), DrawInt 0 2 1,
       CallStep 1 2 (1 / 2) True False, CallReset 0, DrawUniform 0 1 0,
       DrawInt 0 2 0, CallStep 0 1 1 False False, DrawUniform 0 1 (1 / 2),
       DrawInt 0 1 0, CallStep 1 2 (1 / 2) True False, CallReset 0,
       DrawUniform 0 1 0, DrawInt 0 2 0, CallStep 0 1 1 False False]"
  let ?q = "[[1, 0], [0, 3 / 8], [0, 0 :: real]]"
  let ?avg = "[Num (5 / 6), Num (3 / 4)]"
  have run: "fit half_agent chain_ops 5 2 (0, 0) = Inr ((?q, ?avg), ?lg)" by code_simp
  have tr: "map (\<lambda>(a, s, r, d). r) (env_steps ?lg) = [1, 1 / 2, 1, 1 / 2, 1]" by simp
  have c: "\<lceil>5 / 2 :: real\<rceil> = 3" by linarith
  have b0: "bin_entries [1, 1 / 2, 1, 1 / 2, 1] 5 2 0 = [1, 1 / 2, 1]"
    by (simp add: bin_entries_def c)
  have b1: "bin_entries [1, 1 / 2, 1, 1 / 2, 1] 5 2 1 = [1 / 2, 1]"
    by (simp add: bin_entries_def c)
  from fit_reward_bins [of 5 2 half_agent chain_ops "(0, 0)" ?q ?avg ?lg] run
  have all: "\<forall>i < 2. bin_entries [1, 1 / 2, 1, 1 / 2, 1] 5 2 i \<noteq> [] \<longrightarrow>
      ?avg ! i = Num (sum_list (bin_entries [1, 1 / 2, 1, 1 / 2, 1] 5 2 i)
                      / real (length (bin_entries [1, 1 / 2, 1, 1 / 2, 1] 5 2 i)))"
    and "\<exists>q avg lg. fit half_agent chain_ops 5 2 (0, 0) = Inr ((q, avg), lg)"
    using chain_fit_contracts by (simp_all only: tr) simp_all
  from all b0 have "?avg ! 0 = Num ((1 + 1 / 2 + 1) / 3)" by simp
  moreover from all b1 have "?avg ! 1 = Num ((1 / 2 + 1) / 2)" by simp
  ultimately show ?thesis using run b0 b1 by simp
qed

text \<open>
  Claim C4, at \<open>steps = 1\<close> and \<open>num_bins = 3\<close>: the bin size is 1, bin 1 is not the final
  bin and covers no entry of the one-entry trace. Its bounds \<open>1 < 2\<close> pass the guard of
  line 145, and the mean of the empty slice is not-a-number, not 0. The final bin, whose
  end is the length of the trace, reports 0.
\<close>

theorem fit_empty_bin_nan:
  "fit half_agent chain_ops 1 3 (0, 0) =
     Inr (([[1 / 2, 0], [0, 0], [0, 0]], [Num 1, NaN, Num 0]),
          [CallReset 0, DrawUniform 0 1 0, DrawInt 0 2 0, CallStep 0 1 1 False False])
   \<and> bin_entries [1] 1 3 1 = []"
proof -
  have "fit half_agent chain_ops 1 3 (0, 0) =
     Inr (([[1 / 2, 0], [0, 0], [0, 0]], [Num 1, NaN, Num 0]),
          [CallReset 0, DrawUniform 0 1 0, DrawInt 0 2 0, CallStep 0 1 1 False False])"
    by code_simp
  moreover have "\<lceil>1 / 3 :: real\<rceil> = 1" by linarith
  then have "bin_entries [1] 1 3 1 = []" by (simp add: bin_entries_def)
  ultimately show ?thesis by simp
qed

subsection \<open>Arguments outside the documented range\<close>

lemma tie_break_argmax_fail_log:
  "tie_break_argmax ops row io = Inl (e, lg) \<Longrightarrow> \<exists>rest. lg = snd io @ rest"
  by (auto simp: tie_break_argmax_def do_randint_def Let_def split: sum.splits prod.splits)

lemma choose_action_fail_log:
  assumes "choose_action ag ops q s io = Inl (e, lg)"
  shows "\<exists>rest. lg = snd io @ rest"
proof -
  obtain u io0 where u: "do_uniform ops 0 1 io = (u, io0)" by (cases "do_uniform ops 0 1 io")
  then have l0: "snd io0 = snd io @ [DrawUniform 0 1 u]"
    by (auto simp: do_uniform_def split: prod.splits)
  from assms u have "lg = snd io0 \<or> (\<exists>row. tie_break_argmax ops row io0 = Inl (e, lg))"
    by (auto simp: choose_action_def split: if_splits sum.splits prod.splits)
  then show ?thesis
    using l0 by (auto dest: tie_break_argmax_fail_log)
qed

lemma fit_step_log: "\<exists>rest. log_of (fit_step ag ops st) = snd (fit_io st) @ rest"
proof (cases "choose_action ag ops (state_action_values st) (current_state st) (fit_io st)")
  case (Inl f)
  obtain e lg where f: "f = (e, lg)" by (cases f)
  from Inl have "fit_step ag ops st = Inl f" by (simp add: fit_step_def)
  with Inl f choose_action_fail_log [of ag ops "state_action_values st" "current_state st"
      "fit_io st" e lg]
  show ?thesis by (simp add: log_of_def)
next
  case (Inr p)
  obtain a io1 where p: "p = (a, io1)" by (cases p)
  from choose_action_log [of ag ops _ _ "fit_io st" a io1] Inr p obtain evs where
    e1: "snd io1 = snd (fit_io st) @ evs" by auto
  obtain obs reward terminated truncated io2 where
    ds: "do_step ops a io1 = ((obs, reward, terminated, truncated), io2)"
    by (cases "do_step ops a io1") auto
  then have e2: "snd io2 = snd io1 @ [CallStep a obs reward terminated truncated]"
    by (auto simp: do_step_def split: prod.splits)
  obtain next_state io3 where
    rs: "(if truncated \<or> terminated then do_reset ops io2 else (0, io2)) = (next_state, io3)"
    by (cases "if truncated \<or> terminated then do_reset ops io2 else (0, io2)")
  then have e3: "\<exists>r. snd io3 = snd io2 @ r"
    by (auto simp: do_reset_def split: if_splits prod.splits)
  have "log_of (fit_step ag ops st) = snd io3"
    using Inr p ds rs by (auto simp: fit_step_def log_of_def Let_def split: sum.splits)
  with e1 e2 e3 show ?thesis by auto
qed

lemma fit_loop_log: "\<exists>rest. log_of (fit_loop ag ops n st) = snd (fit_io st) @ rest"
proof (induction n arbitrary: st)
  case 0
  show ?case by (simp add: log_of_def)
next
  case (Suc n)
  show ?case
  proof (cases "fit_step ag ops st")
    case (Inl f)
    with fit_step_log [of ag ops st] show ?thesis by simp
  next
    case (Inr s1)
    with fit_step_log [of ag ops st] obtain r1 where
      "snd (fit_io s1) = snd (fit_io st) @ r1" by (auto simp: log_of_def)
    with Suc.IH [of s1] Inr show ?thesis by auto
  qed
qed

lemma fit_train_log:
  "\<exists>rest. log_of (fit_train ag ops steps w) = CallReset (fst (env_reset ops w)) # rest"
proof -
  obtain s0 w0 where r: "env_reset ops w = (s0, w0)" by (cases "env_reset ops w")
  let ?st0 = "\<lparr> state_action_values =
               np_zeros2 (observation_space_n ops) (action_space_n ops),
             current_state = s0, all_rewards = [], transitions = [],
             fit_io = (w0, [CallReset s0]) \<rparr>"
  have "fit_train ag ops steps w = fit_loop ag ops (nat steps) ?st0"
    using r by (simp add: fit_train_def do_reset_def)
  with fit_loop_log [of ag ops "nat steps" ?st0] r show ?thesis by simp
qed

text \<open>
  Claim C5, as the program has it. \<^verbatim>\<open>fit\<close> checks neither argument. A negative
  \<open>num_bins\<close> raises \<^verbatim>\<open>ValueError\<close> in \<^verbatim>\<open>np.zeros\<close>, before any call of the environment.
  With \<open>num_bins = 0\<close> every error comes after the first reset, and when the loop raises
  nothing it is the \<^verbatim>\<open>ZeroDivisionError\<close> of line 141, after all \<open>steps\<close> steps. With
  \<open>steps \<le> 0\<close> and \<open>num_bins \<ge> 1\<close> nothing is raised: the environment is reset once, no
  step is taken, and the all-zero table is returned.
\<close>

theorem fit_invalid_arguments:
  "(num_bins < 0 \<longrightarrow> fit ag ops steps num_bins w = Inl (ValueError, []))
   \<and> (num_bins = 0 \<longrightarrow>
        (\<exists>e rest. fit ag ops steps num_bins w
                    = Inl (e, CallReset (fst (env_reset ops w)) # rest)))
   \<and> (num_bins = 0 \<and> fit_train ag ops steps w = Inr fin \<longrightarrow>
        fit ag ops steps num_bins w = Inl (ZeroDivisionError, snd (fit_io fin))
        \<and> length (env_steps (snd (fit_io fin))) = nat steps)
   \<and> (steps \<le> 0 \<and> 1 \<le> num_bins \<longrightarrow>
        fit ag ops steps num_bins w =
          Inr ((np_zeros2 (observation_space_n ops) (action_space_n ops),
                avg_rewards [] steps num_bins),
               [CallReset (fst (env_reset ops w))]))"
proof (intro conjI impI)
  assume "num_bins < 0"
  then show "fit ag ops steps num_bins w = Inl (ValueError, [])" by (simp add: fit_def)
next
  assume z: "num_bins = 0"
  from fit_train_log [of ag ops steps w] obtain rest where
    l: "log_of (fit_train ag ops steps w) = CallReset (fst (env_reset ops w)) # rest" by blast
  show "\<exists>e rest. fit ag ops steps num_bins w
                    = Inl (e, CallReset (fst (env_reset ops w)) # rest)"
  proof (cases "fit_train ag ops steps w")
    case (Inl f)
    with z l show ?thesis by (cases f) (simp add: fit_def log_of_def)
  next
    case (Inr fin)
    with z l show ?thesis by (simp add: fit_def log_of_def)
  qed
next
  assume a: "num_bins = 0 \<and> fit_train ag ops steps w = Inr fin"
  then show "fit ag ops steps num_bins w = Inl (ZeroDivisionError, snd (fit_io fin))"
    by (simp add: fit_def)
  from a fit_train_rewards_logged [of ag ops steps w fin]
  have "rewards_logged fin" "length (all_rewards fin) = nat steps" by simp_all
  then show "length (env_steps (snd (fit_io fin))) = nat steps"
    by (simp add: rewards_logged_def)
next
  assume "steps \<le> 0 \<and> 1 \<le> num_bins"
  then show "fit ag ops steps num_bins w =
          Inr ((np_zeros2 (observation_space_n ops) (action_space_n ops),
                avg_rewards [] steps num_bins),
               [CallReset (fst (env_reset ops w))])"
    by (simp add: fit_def fit_train_def do_reset_def split: prod.splits)
qed

text \<open>
  With \<open>steps = 0\<close> the program resets the environment and returns; no error is signalled.
\<close>

theorem fit_no_configuration_check:
  "fit half_agent chain_ops 0 1 (0, 0) = Inr (([[0, 0], [0, 0], [0, 0]], [Num 0]), [CallReset 0])
   \<and> \<not> (\<exists>e. fit half_agent chain_ops 0 1 (0, 0) = Inl (e, []))"
proof -
  have "fit half_agent chain_ops 0 1 (0, 0)
      = Inr (([[0, 0], [0, 0], [0, 0]], [Num 0]), [CallReset 0])"
    by code_simp
  then show ?thesis by simp
qed

theorem fit_invalid_arguments_witness:
  "fit half_agent chain_ops 3 (- 1) (0, 0) = Inl (ValueError, [])
   \<and> fit half_agent chain_ops 2 0 (0, 0) =
       Inl (ZeroDivisionError,
            [CallReset 0, DrawUniform 0 1 0, DrawInt 0 2 0, CallStep 0 1 1 False False,
             DrawUniform 0 1 (1 / 2), DrawInt 0 2 1, CallStep 1 2 (1 / 2) True False,
             CallReset 0])
   \<and> fit half_agent chain_ops (- 5) 2 (0, 0) =
       Inr (([[0, 0], [0, 0], [0, 0]], [Num 0, NaN]), [CallReset 0])"
proof -
  let ?fin = "\<lparr> state_action_values = [[1 / 2, 0], [0, 1 / 4], [0, 0]], current_state = 0,
        all_rewards = [1, 1 / 2],
        transitions = [(0, 0, 1, 1, False), (1, 1, 1 / 2, 2, True)],
        fit_io = ((0, 4 :: nat),
           [CallReset 0, DrawUniform 0 1 0, DrawInt 0 2 0, CallStep 0 1 1 False False,
            DrawUniform 0 1 (1 / 2), DrawInt 0 2 1, CallStep 1 2 (1 / 2) True False,
            CallReset 0]) \<rparr>"
  have train: "fit_train half_agent chain_ops 2 (0, 0) = Inr ?fin" by code_simp
  have avg: "avg_rewards [] (- 5) 2 = [Num 0, NaN]" by code_simp
  have z: "np_zeros2 (observation_space_n chain_ops) (action_space_n chain_ops)
      = [[0, 0], [0, 0], [0, 0]]"
    by (simp add: chain_ops_def np_zeros2_def numeral_3_eq_3 numeral_2_eq_2)
  have r: "fst (env_reset chain_ops (0, 0 :: nat)) = 0" by (simp add: chain_ops_def)
  from fit_invalid_arguments [of "- 1" half_agent chain_ops 3 "(0, 0)"]
  have a: "fit half_agent chain_ops 3 (- 1) (0, 0) = Inl (ValueError, [])" by simp
  from fit_invalid_arguments [of 0 half_agent chain_ops 2 "(0, 0)" ?fin] train
  have b: "fit half_agent chain_ops 2 0 (0, 0) = Inl (ZeroDivisionError, snd (fit_io ?fin))"
    by simp
  from fit_invalid_arguments [of 2 half_agent chain_ops "- 5" "(0, 0)"]
  have c: "fit half_agent chain_ops (- 5) 2 (0, 0) =
       Inr (([[0, 0], [0, 0], [0, 0]], [Num 0, NaN]), [CallReset 0])"
    by (simp add: avg z r)
  from a b c show ?thesis by simp
qed

subsection \<open>The update with reward 0, no discount and learning rate 1\<close>

text \<open>
  Without rounding and on finite values the floating-point update is the update of
  \<open>fit_step\<close>.
\<close>

lemma td_float_exact:
  "td_float Finite (Finite a) (Finite g) (Finite r) (Finite m) (Finite q)
     = Finite (q + a * (r + g * m - q))"
  by (simp add: td_float_def fsub_def)

lemma fadd_PlusInf_NaN:
  "fadd rnd PlusInf (fmul rnd (Finite 1) (fsub rnd y PlusInf)) = NotANumber"
  by (cases y) (simp_all add: fsub_def)

lemma fadd_MinusInf_NaN:
  "fadd rnd MinusInf (fmul rnd (Finite 1) (fsub rnd y MinusInf)) = NotANumber"
  by (cases y) (simp_all add: fsub_def)

text \<open>
  Claim C9, as the program has it. With reward 0, \<open>gamma = 0\<close> and \<open>alpha = 1\<close> the update
  gives exactly 0 for every finite prior value and every finite bootstrap maximum, whatever
  the rounding, provided 0 and the prior value are floats and the negation of a float is a
  float. For a prior value that is an infinity or not-a-number the update gives
  not-a-number.
\<close>

theorem td_float_zero_reward:
  assumes "is_float rnd 0" and "is_float rnd q"
    and "\<forall>x. is_float rnd x \<longrightarrow> is_float rnd (- x)"
  shows "td_float rnd (Finite 1) (Finite 0) (Finite 0) (Finite m) (Finite q) = Finite 0
       \<and> td_float rnd (Finite 1) (Finite 0) (Finite 0) mx PlusInf = NotANumber
       \<and> td_float rnd (Finite 1) (Finite 0) (Finite 0) mx MinusInf = NotANumber
       \<and> td_float rnd (Finite 1) (Finite 0) (Finite 0) mx NotANumber = NotANumber"
proof -
  from assms(1) have z: "rnd 0 = Finite 0" by (simp add: is_float_def)
  from assms(2,3) have n: "rnd (- q) = Finite (- q)" by (simp add: is_float_def)
  have "td_float rnd (Finite 1) (Finite 0) (Finite 0) (Finite m) (Finite q) = Finite 0"
    by (simp add: td_float_def fsub_def z n)
  then show ?thesis
    by (simp add: td_float_def fadd_PlusInf_NaN fadd_MinusInf_NaN)
qed

theorem td_float_zero_reward_witness:
  "td_float overflow_rnd (Finite 1) (Finite 0) (Finite 0) (Finite 7) (Finite (5 / 2)) = Finite 0"
proof -
  have "is_float overflow_rnd 0" "is_float overflow_rnd (5 / 2)"
    by (simp_all add: is_float_def overflow_rnd_def)
  moreover have "\<forall>x. is_float overflow_rnd x \<longrightarrow> is_float overflow_rnd (- x)"
    by (auto simp: is_float_def overflow_rnd_def split: if_splits)
  ultimately show ?thesis
    using td_float_zero_reward [of overflow_rnd "5 / 2" 7] by simp
qed

text \<open>
  A prior value of plus infinity is reached from 0 by two updates with finite rewards whose
  difference overflows; the update with reward 0 then gives not-a-number, not 0.
\<close>

theorem td_float_infinite_prior:
  "td_float overflow_rnd (Finite 1) (Finite 0) (Finite (- (2 ^ 1023))) (Finite 0) (Finite 0)
     = Finite (- (2 ^ 1023))
   \<and> td_float overflow_rnd (Finite 1) (Finite 0) (Finite (2 ^ 1023)) (Finite 0)
       (Finite (- (2 ^ 1023))) = PlusInf
   \<and> td_float overflow_rnd (Finite 1) (Finite 0) (Finite 0) (Finite 0) PlusInf = NotANumber
   \<and> NotANumber \<noteq> Finite 0"
  by (simp add: td_float_def fsub_def overflow_rnd_def)

end
